theory Spec2Isabelle
  imports Complex_Main "HOL-Library.AList"
begin

section \<open>Configuration (config.py)\<close>

definition MIN_STAFF_PER_HOUR :: int where "MIN_STAFF_PER_HOUR = 2"
definition MIN_REST_HOURS :: int where "MIN_REST_HOURS = 4"
definition MIN_SHIFT_HOURS :: int where "MIN_SHIFT_HOURS = 9"
definition MAX_SHIFT_HOURS :: int where "MAX_SHIFT_HOURS = 12"
definition ROLE_OT_PROHIBITED :: "string list" where "ROLE_OT_PROHIBITED = [''Branch Manager'']"
definition MAX_DAYS_PER_WEEK :: nat where "MAX_DAYS_PER_WEEK = 6"
definition MAX_SHIFTS_PER_DAY :: int where "MAX_SHIFTS_PER_DAY = 1"
definition W1 :: rat where "W1 = 3 / 4"

section \<open>Time\<close>

text \<open>
  A pandas Timestamp is modelled as the number of whole seconds since the epoch (the
  source only ever adds whole hours to the timestamps it is given and compares them).
  A \<^verbatim>\<open>datetime.date\<close> is the number of whole days since the epoch.
\<close>

type_synonym timestamp = int
type_synonym day = int

definition Timedelta_hours :: "int \<Rightarrow> int" where
  "Timedelta_hours k = k * 3600"

definition date_of :: "timestamp \<Rightarrow> day" where
  \<comment> \<open>\<^verbatim>\<open>ts.date()\<close>\<close>
  "date_of t = t div 86400"

definition hour_of :: "timestamp \<Rightarrow> int" where
  \<comment> \<open>\<^verbatim>\<open>ts.hour\<close>\<close>
  "hour_of t = (t mod 86400) div 3600"

definition midnight :: "day \<Rightarrow> timestamp" where
  \<comment> \<open>\<^verbatim>\<open>pd.to_datetime(date)\<close>\<close>
  "midnight d = d * 86400"

section \<open>Errors and sequencing\<close>

datatype py_error = AssertionError | KeyError | IndexError | ValueError | TypeError | ParserError

definition ebind :: "'e + 'a \<Rightarrow> ('a \<Rightarrow> 'e + 'b) \<Rightarrow> 'e + 'b" where
  "ebind m f = (case m of Inl e \<Rightarrow> Inl e | Inr x \<Rightarrow> f x)"

text \<open>A loop body run over a list in order, stopping at the first exception.\<close>

fun emap :: "('a \<Rightarrow> 'e + 'b) \<Rightarrow> 'a list \<Rightarrow> 'e + 'b list" where
  "emap f [] = Inr []"
| "emap f (x # xs) = ebind (f x) (\<lambda>y. ebind (emap f xs) (\<lambda>ys. Inr (y # ys)))"

definition iloc :: "'a list \<Rightarrow> nat \<Rightarrow> py_error + 'a" where
  "iloc xs i = (if i < length xs then Inr (xs ! i) else Inl IndexError)"

definition dict_get :: "('k \<times> 'v) list \<Rightarrow> 'k \<Rightarrow> py_error + 'v" where
  "dict_get d k = (case map_of d k of None \<Rightarrow> Inl KeyError | Some v \<Rightarrow> Inr v)"

definition unique :: "'a list \<Rightarrow> 'a list" where
  \<comment> \<open>\<^verbatim>\<open>Series.unique()\<close>: the distinct values in order of first appearance\<close>
  "unique xs = rev (remdups (rev xs))"

section \<open>Input tables and the model object\<close>

text \<open>
  The demand DataFrame has the columns \<^verbatim>\<open>date_time\<close> and \<^verbatim>\<open>demand\<close>; the constructor
  adds \<^verbatim>\<open>bus_day\<close> and \<^verbatim>\<open>week\<close>. A cell of \<^verbatim>\<open>date_time\<close> is either text (as read from
  a CSV file) or already a Timestamp. The frame lives in a store, because the
  constructor writes into the caller's object and keeps a reference to it. The staff
  DataFrame is only ever read and is held by value.
\<close>

datatype cell = Text string | Stamp timestamp

record demand_frame =
  date_time :: "cell list"
  demand :: "int list"
  bus_day :: "day list option"
  week :: "int list option"

record staff_row =
  staff_id :: int
  role :: string
  hourly_wage :: rat
  overtime_hourly_wage :: rat

type_synonym ref = nat
type_synonym heap = "ref \<Rightarrow> demand_frame"

record model =
  M :: nat
  demand_dict :: "(timestamp \<times> int) list"
  demand_df :: ref
  staff_df :: "staff_row list"

text \<open>
  \<^verbatim>\<open>pd.to_datetime\<close> on a column: Timestamps are kept, text is parsed. The parser of
  pandas is not part of the repository and is a parameter.
\<close>

definition to_datetime :: "(string \<Rightarrow> timestamp option) \<Rightarrow> cell list \<Rightarrow> py_error + timestamp list" where
  "to_datetime parse cs =
     emap (\<lambda>c. case c of Stamp t \<Rightarrow> Inr t
                | Text s \<Rightarrow> (case parse s of None \<Rightarrow> Inl ParserError | Some t \<Rightarrow> Inr t)) cs"

definition week_col :: "timestamp list \<Rightarrow> int list" where
  \<comment> \<open>\<^verbatim>\<open>((date_time - date_time.min()).dt.days // 7) + 1\<close>\<close>
  "week_col ts =
     (case ts of [] \<Rightarrow> []
      | t # r \<Rightarrow> (let m = fold min r t in map (\<lambda>x. (x - m) div 86400 div 7 + 1) ts))"

definition to_dict :: "timestamp list \<Rightarrow> int list \<Rightarrow> (timestamp \<times> int) list" where
  \<comment> \<open>\<^verbatim>\<open>set_index('date_time')['demand'].to_dict()\<close>: a later row overwrites the value of
      an equal key, the key keeps its first position\<close>
  "to_dict ts ds = fold (\<lambda>(k, v) d. AList.update k v d) (zip ts ds) []"

definition Model_init ::
  "(string \<Rightarrow> timestamp option) \<Rightarrow> heap \<Rightarrow> ref \<Rightarrow> staff_row list \<Rightarrow> py_error + (heap \<times> model)" where
  "Model_init parse h demand_ref staff =
     ebind (to_datetime parse (date_time (h demand_ref))) (\<lambda>ts.
       let h1 = h(demand_ref := (h demand_ref)\<lparr>date_time := map Stamp ts\<rparr>);
           h2 = h1(demand_ref := (h1 demand_ref)\<lparr>bus_day := Some (map date_of ts)\<rparr>);
           h3 = h2(demand_ref := (h2 demand_ref)\<lparr>week := Some (week_col ts)\<rparr>)
       in Inr (h3, \<lparr>M = length staff,
                    demand_dict = to_dict ts (demand (h3 demand_ref)),
                    demand_df = demand_ref,
                    staff_df = staff\<rparr>))"

text \<open>Reading a column of \<^verbatim>\<open>self.demand_df\<close> back through the reference.\<close>

definition col_date_time :: "heap \<Rightarrow> model \<Rightarrow> py_error + timestamp list" where
  "col_date_time h self =
     emap (\<lambda>c. case c of Stamp t \<Rightarrow> Inr t | Text s \<Rightarrow> Inl TypeError) (date_time (h (demand_df self)))"

definition col_bus_day :: "heap \<Rightarrow> model \<Rightarrow> py_error + day list" where
  "col_bus_day h self = (case bus_day (h (demand_df self)) of None \<Rightarrow> Inl KeyError | Some b \<Rightarrow> Inr b)"

definition col_week :: "heap \<Rightarrow> model \<Rightarrow> py_error + int list" where
  "col_week h self = (case week (h (demand_df self)) of None \<Rightarrow> Inl KeyError | Some w \<Rightarrow> Inr w)"

section \<open>The solver's variables, expressions and constraints\<close>

text \<open>
  A variable object is identified with the key under which the dictionaries
  \<^verbatim>\<open>x_start\<close>, \<^verbatim>\<open>x\<close>, \<^verbatim>\<open>x_ot\<close>, \<^verbatim>\<open>x_day\<close>, \<^verbatim>\<open>y1\<close>, \<^verbatim>\<open>y2\<close> hold it: the
  constraints and the decoder reach a variable only through these dictionaries. When a
  timestamp occurs twice in the table, the variable created first is replaced in the
  dictionary by the second, which has the same bounds; the list of declarations then
  holds its key twice.
\<close>

datatype var =
    XStart nat timestamp
  | X nat timestamp
  | XOt nat timestamp
  | XDay nat timestamp
  | Y1 timestamp
  | Y2 timestamp

record mpvar =
  lb :: rat
  ub :: rat
  integer :: bool

definition IntVar :: "rat \<Rightarrow> rat \<Rightarrow> mpvar" where
  "IntVar lo hi = \<lparr>lb = lo, ub = hi, integer = True\<rparr>"

definition BoolVar :: mpvar where
  "BoolVar = \<lparr>lb = 0, ub = 1, integer = True\<rparr>"

definition NumVar :: "rat \<Rightarrow> rat \<Rightarrow> mpvar" where
  "NumVar lo hi = \<lparr>lb = lo, ub = hi, integer = False\<rparr>"

definition SetBounds :: "rat \<Rightarrow> rat \<Rightarrow> mpvar \<Rightarrow> mpvar" where
  "SetBounds lo hi v = v\<lparr>lb := lo, ub := hi\<rparr>"

type_synonym variables = "(var \<times> mpvar) list"

definition var_get :: "variables \<Rightarrow> var \<Rightarrow> py_error + var" where
  \<comment> \<open>a dictionary lookup such as \<^verbatim>\<open>x_start[i][dt]\<close>\<close>
  "var_get vars v = (if v \<in> set (map fst vars) then Inr v else Inl KeyError)"

datatype lin = Lin "(rat \<times> var) list" rat

definition lvar :: "var \<Rightarrow> lin" where
  "lvar v = Lin [(1, v)] 0"

definition lconst :: "rat \<Rightarrow> lin" where
  "lconst c = Lin [] c"

fun ladd :: "lin \<Rightarrow> lin \<Rightarrow> lin" where
  "ladd (Lin a c) (Lin b d) = Lin (a @ b) (c + d)"

fun lscale :: "rat \<Rightarrow> lin \<Rightarrow> lin" where
  "lscale k (Lin a c) = Lin (map (\<lambda>(q, v). (k * q, v)) a) (k * c)"

definition lsum :: "lin list \<Rightarrow> lin" where
  "lsum es = foldr ladd es (lconst 0)"

fun lin_value :: "(var \<Rightarrow> rat) \<Rightarrow> lin \<Rightarrow> rat" where
  "lin_value asg (Lin a c) = sum_list (map (\<lambda>(q, v). q * asg v) a) + c"

datatype constr = Le lin lin | Ge lin lin

fun holds :: "(var \<Rightarrow> rat) \<Rightarrow> constr \<Rightarrow> bool" where
  "holds asg (Le a b) = (lin_value asg a \<le> lin_value asg b)"
| "holds asg (Ge a b) = (lin_value asg a \<ge> lin_value asg b)"

text \<open>The names the source gives its constraints, with their indices.\<close>

datatype cname =
    past nat nat
  | rest nat nat
  | min_shift nat nat
  | consecutive nat nat nat
  | ot nat nat nat
  | rest_o nat nat nat
  | max_per_day nat nat
  | day_link nat nat
  | dc nat
  | max_per_week nat int

type_synonym constraints = "(cname \<times> constr) list"

definition is_int :: "rat \<Rightarrow> bool" where
  "is_int q = (of_int \<lfloor>q\<rfloor> = q)"

definition within_bounds :: "(var \<Rightarrow> rat) \<Rightarrow> variables \<Rightarrow> bool" where
  "within_bounds asg vars =
     list_all (\<lambda>(v, b). lb b \<le> asg v \<and> asg v \<le> ub b \<and> (integer b \<longrightarrow> is_int (asg v))) vars"

definition satisfies :: "(var \<Rightarrow> rat) \<Rightarrow> constraints \<Rightarrow> bool" where
  "satisfies asg cs = list_all (\<lambda>(n, c). holds asg c) cs"

section \<open>Model.get_subset_dts\<close>

definition get_subset_dts :: "model \<Rightarrow> timestamp \<Rightarrow> timestamp \<Rightarrow> int option \<Rightarrow> py_error + timestamp list" where
  "get_subset_dts self min_dt max_dt max_length =
     (let subset_dts = filter (\<lambda>dt. min_dt \<le> dt \<and> dt \<le> max_dt) (map fst (demand_dict self))
      in case max_length of
           None \<Rightarrow> Inr subset_dts
         | Some n \<Rightarrow> if n \<noteq> 0 \<and> \<not> int (length subset_dts) \<le> n then Inl AssertionError
                     else Inr subset_dts)"

definition py_max :: "int list \<Rightarrow> py_error + int" where
  \<comment> \<open>\<^verbatim>\<open>max(xs)\<close> raises ValueError on an empty list\<close>
  "py_max xs = (case xs of [] \<Rightarrow> Inl ValueError | x # r \<Rightarrow> Inr (fold max r x))"

section \<open>Model.add_variables\<close>

definition x_start_var :: "timestamp \<Rightarrow> day \<Rightarrow> mpvar" where
  "x_start_var dt bus =
     (let v = IntVar 0 1
      in if date_of (dt + Timedelta_hours MIN_SHIFT_HOURS) > bus then SetBounds 0 0 v else v)"

definition x_ot_var :: "string \<Rightarrow> timestamp \<Rightarrow> mpvar" where
  "x_ot_var r dt =
     (let v = NumVar 0 1
      in if r \<in> set ROLE_OT_PROHIBITED \<or> hour_of dt < MIN_SHIFT_HOURS then SetBounds 0 0 v else v)"

definition y2_var :: "nat \<Rightarrow> int \<Rightarrow> mpvar" where
  "y2_var m dem = IntVar 0 (of_int (max 0 (dem - min (int m) (MIN_STAFF_PER_HOUR - 1))))"

definition slot_variables :: "heap \<Rightarrow> model \<Rightarrow> nat \<Rightarrow> nat \<times> timestamp \<Rightarrow> py_error + variables" where
  "slot_variables h self i jdt =
     (case jdt of (j, dt) \<Rightarrow>
        ebind (col_bus_day h self) (\<lambda>bds.
        ebind (iloc bds j) (\<lambda>bus.
        ebind (iloc (staff_df self) i) (\<lambda>row.
        ebind (if int i = int (M self) - 1
               then ebind (dict_get (demand_dict self) dt) (\<lambda>dem.
                      Inr [(Y1 dt, IntVar 0 1), (Y2 dt, y2_var (M self) dem)])
               else Inr []) (\<lambda>ys.
        Inr ([(XStart i dt, x_start_var dt bus),
              (X i dt, BoolVar),
              (XOt i dt, x_ot_var (role row) dt)] @ ys))))))"

definition day_variables :: "heap \<Rightarrow> model \<Rightarrow> nat \<Rightarrow> py_error + variables" where
  "day_variables h self i =
     ebind (col_bus_day h self) (\<lambda>bds.
       Inr (map (\<lambda>b. (XDay i (midnight b), BoolVar)) (unique bds)))"

definition add_variables :: "heap \<Rightarrow> model \<Rightarrow> py_error + variables" where
  "add_variables h self =
     ebind (emap (\<lambda>i.
              ebind (col_date_time h self) (\<lambda>ts.
              ebind (emap (slot_variables h self i) (enumerate 0 ts)) (\<lambda>vs.
              ebind (day_variables h self i) (\<lambda>ds.
              Inr (concat vs @ ds))))) [0..<M self])
       (\<lambda>vss. Inr (concat vss))"

section \<open>Model.add_constraints\<close>

definition past_constraint :: "model \<Rightarrow> variables \<Rightarrow> nat \<Rightarrow> nat \<Rightarrow> timestamp \<Rightarrow> timestamp \<Rightarrow> py_error + cname \<times> constr" where
  "past_constraint self vars i j dt bus_start =
     ebind (get_subset_dts self (max bus_start (dt - Timedelta_hours (MAX_SHIFT_HOURS - 1))) dt
              (Some MAX_SHIFT_HOURS)) (\<lambda>past_dts.
     ebind (var_get vars (X i dt)) (\<lambda>xv.
     ebind (emap (\<lambda>p_dt. var_get vars (XStart i p_dt)) past_dts) (\<lambda>ss.
     Inr (past i j, Le (lvar xv) (lsum (map lvar ss))))))"

definition rest_window :: "model \<Rightarrow> timestamp \<Rightarrow> py_error + timestamp list" where
  "rest_window self dt =
     get_subset_dts self (dt + Timedelta_hours 1)
       (dt + Timedelta_hours (MIN_SHIFT_HOURS + MIN_REST_HOURS - 1))
       (Some (MIN_SHIFT_HOURS + MIN_REST_HOURS - 1))"

definition rest_constraint :: "variables \<Rightarrow> nat \<Rightarrow> nat \<Rightarrow> timestamp \<Rightarrow> timestamp list \<Rightarrow> py_error + cname \<times> constr" where
  "rest_constraint vars i j dt rest_dts =
     ebind (emap (\<lambda>rest_dt. var_get vars (XStart i rest_dt)) rest_dts) (\<lambda>rs.
     ebind (var_get vars (XStart i dt)) (\<lambda>sv.
     Inr (rest i j,
          Le (lsum (map lvar rs))
             (lscale (of_nat (length rest_dts)) (ladd (lconst 1) (lscale (- 1) (lvar sv)))))))"

definition shift_window :: "model \<Rightarrow> timestamp \<Rightarrow> py_error + timestamp list" where
  "shift_window self dt =
     get_subset_dts self dt (dt + Timedelta_hours (MIN_SHIFT_HOURS - 1)) (Some MIN_SHIFT_HOURS)"

definition min_shift_constraint :: "variables \<Rightarrow> nat \<Rightarrow> nat \<Rightarrow> timestamp \<Rightarrow> timestamp list \<Rightarrow> py_error + cname \<times> constr" where
  "min_shift_constraint vars i j dt shift_dts =
     ebind (emap (\<lambda>s_dt. var_get vars (X i s_dt)) shift_dts) (\<lambda>xs.
     ebind (var_get vars (XStart i dt)) (\<lambda>sv.
     Inr (min_shift i j,
          Ge (lsum (map lvar xs)) (lscale (of_nat (length shift_dts)) (lvar sv)))))"

definition overtime_window :: "model \<Rightarrow> timestamp \<Rightarrow> timestamp list \<Rightarrow> py_error + timestamp list" where
  "overtime_window self bus_eod shift_dts =
     ebind (py_max shift_dts) (\<lambda>m1.
     ebind (py_max shift_dts) (\<lambda>m2.
     get_subset_dts self (m1 + Timedelta_hours 1)
       (min bus_eod (m2 + Timedelta_hours (MAX_SHIFT_HOURS - MIN_SHIFT_HOURS + 1)))
       (Some (MAX_SHIFT_HOURS - MIN_SHIFT_HOURS + 1))))"

definition additional_rest_window :: "model \<Rightarrow> timestamp list \<Rightarrow> py_error + timestamp list" where
  "additional_rest_window self rest_dts =
     (if length rest_dts \<noteq> 0
      then ebind (py_max rest_dts) (\<lambda>m1.
           ebind (py_max rest_dts) (\<lambda>m2.
           get_subset_dts self (m1 + Timedelta_hours 1) (m2 + Timedelta_hours MIN_REST_HOURS)
             (Some MIN_REST_HOURS)))
      else Inr [])"

definition overtime_constraints ::
  "variables \<Rightarrow> nat \<Rightarrow> nat \<Rightarrow> timestamp \<Rightarrow> timestamp list \<Rightarrow> nat \<times> timestamp \<Rightarrow> py_error + constraints" where
  "overtime_constraints vars i j dt additional_rest_dts odt =
     (case odt of (oi, overtime_dt) \<Rightarrow>
        ebind (var_get vars (X i (overtime_dt + Timedelta_hours (- 1)))) (\<lambda>xprev.
        ebind (var_get vars (XStart i dt)) (\<lambda>sv.
        ebind (var_get vars (X i overtime_dt)) (\<lambda>xo.
        ebind (var_get vars (XOt i overtime_dt)) (\<lambda>xot.
        ebind (if length additional_rest_dts \<ge> oi + 1
               then ebind (var_get vars (XStart i (additional_rest_dts ! oi))) (\<lambda>rv.
                      Inr [(rest_o i j oi, Ge (ladd (lconst 1) (lscale (- 1) (lvar xot))) (lvar rv))])
               else Inr []) (\<lambda>extra.
        Inr ([(consecutive i j oi, Ge (ladd (lconst 1) (lvar xprev)) (ladd (lvar sv) (lvar xo))),
              (ot i j oi, Ge (ladd (lconst 1) (lvar xot)) (ladd (lvar sv) (lvar xo)))] @ extra)))))))"

definition max_per_day_constraint :: "model \<Rightarrow> variables \<Rightarrow> nat \<Rightarrow> nat \<Rightarrow> timestamp \<Rightarrow> timestamp \<Rightarrow> py_error + cname \<times> constr" where
  "max_per_day_constraint self vars i j bus_start bus_eod =
     ebind (get_subset_dts self bus_start bus_eod None) (\<lambda>other_starts.
     ebind (emap (\<lambda>o_start. var_get vars (XStart i o_start)) other_starts) (\<lambda>ss.
     Inr (max_per_day i j, Le (lsum (map lvar ss)) (lconst (of_int MAX_SHIFTS_PER_DAY)))))"

definition day_link_constraint :: "model \<Rightarrow> variables \<Rightarrow> nat \<Rightarrow> nat \<Rightarrow> timestamp \<Rightarrow> timestamp \<Rightarrow> py_error + cname \<times> constr" where
  "day_link_constraint self vars i j bus_start bus_eod =
     ebind (get_subset_dts self bus_start bus_eod None) (\<lambda>day_dts.
     ebind (emap (\<lambda>d_dt. var_get vars (X i d_dt)) day_dts) (\<lambda>xs.
     ebind (var_get vars (XDay i bus_start)) (\<lambda>dv.
     Inr (day_link i j, Le (lsum (map lvar xs)) (lscale (of_nat (length day_dts)) (lvar dv))))))"

definition dc_constraint :: "model \<Rightarrow> variables \<Rightarrow> nat \<Rightarrow> timestamp \<Rightarrow> py_error + cname \<times> constr" where
  "dc_constraint self vars j dt =
     ebind (emap (\<lambda>s. var_get vars (X s dt)) [0..<M self]) (\<lambda>xs.
     ebind (var_get vars (Y1 dt)) (\<lambda>a.
     ebind (var_get vars (Y2 dt)) (\<lambda>b.
     ebind (dict_get (demand_dict self) dt) (\<lambda>dem.
     Inr (dc j, Ge (ladd (ladd (lsum (map lvar xs)) (lvar a)) (lvar b)) (lconst (of_int dem)))))))"

text \<open>
  One pass of the inner loop of \<^verbatim>\<open>add_constraints\<close> for staff \<open>i\<close> at slot \<open>(j, dt)\<close>:
  the constraints added, in order, and the new value of \<^verbatim>\<open>last_seen_date\<close>.
\<close>

definition slot_constraints ::
  "heap \<Rightarrow> model \<Rightarrow> variables \<Rightarrow> nat \<Rightarrow> timestamp option \<Rightarrow> nat \<times> timestamp
   \<Rightarrow> py_error + constraints \<times> timestamp option" where
  "slot_constraints h self vars i last_seen_date jdt =
     (case jdt of (j, dt) \<Rightarrow>
        ebind (col_bus_day h self) (\<lambda>bds.
        ebind (iloc bds j) (\<lambda>b.
        let bus_start = midnight b;
            bus_eod = bus_start + Timedelta_hours 23
        in
        ebind (past_constraint self vars i j dt bus_start) (\<lambda>c_past.
        ebind (rest_window self dt) (\<lambda>rest_dts.
        ebind (rest_constraint vars i j dt rest_dts) (\<lambda>c_rest.
        ebind (shift_window self dt) (\<lambda>shift_dts.
        ebind (min_shift_constraint vars i j dt shift_dts) (\<lambda>c_min.
        ebind (overtime_window self bus_eod shift_dts) (\<lambda>potential_overtime_dts.
        ebind (additional_rest_window self rest_dts) (\<lambda>additional_rest_dts.
        ebind (emap (overtime_constraints vars i j dt additional_rest_dts)
                 (enumerate 0 potential_overtime_dts)) (\<lambda>c_ot.
        ebind (max_per_day_constraint self vars i j bus_start bus_eod) (\<lambda>c_day.
        ebind (if Some bus_start \<noteq> last_seen_date \<and> length (unique bds) > MAX_DAYS_PER_WEEK
               then ebind (day_link_constraint self vars i j bus_start bus_eod) (\<lambda>c.
                      Inr ([c], Some bus_start))
               else Inr ([], last_seen_date)) (\<lambda>(c_link, last_seen_date').
        ebind (if int i = int (M self) - 1
               then ebind (dc_constraint self vars j dt) (\<lambda>c. Inr [c])
               else Inr []) (\<lambda>c_dc.
        Inr ([c_past, c_rest, c_min] @ concat c_ot @ [c_day] @ c_link @ c_dc,
             last_seen_date')))))))))))))))"

fun slot_loop ::
  "('s \<Rightarrow> 'a \<Rightarrow> py_error + 'c list \<times> 's) \<Rightarrow> 's \<Rightarrow> 'a list \<Rightarrow> py_error + 'c list" where
  "slot_loop body seen [] = Inr []"
| "slot_loop body seen (x # xs) =
     ebind (body seen x) (\<lambda>(cs, seen').
     ebind (slot_loop body seen' xs) (\<lambda>more. Inr (cs @ more)))"

definition week_constraints :: "heap \<Rightarrow> model \<Rightarrow> variables \<Rightarrow> nat \<Rightarrow> py_error + constraints" where
  "week_constraints h self vars i =
     ebind (col_week h self) (\<lambda>wks.
     ebind (emap (\<lambda>w.
              ebind (col_week h self) (\<lambda>wks'.
              ebind (col_bus_day h self) (\<lambda>bds.
              let week_days = unique (map snd (filter (\<lambda>(wk, b). wk = w) (zip wks' bds)))
              in if length week_days > MAX_DAYS_PER_WEEK
                 then ebind (emap (\<lambda>w_d. var_get vars (XDay i (midnight w_d))) week_days) (\<lambda>ds.
                        Inr [(max_per_week i w,
                              Le (lsum (map lvar ds)) (lconst (of_nat MAX_DAYS_PER_WEEK)))])
                 else Inr []))) (unique wks)) (\<lambda>cs.
     Inr (concat cs)))"

definition add_constraints :: "heap \<Rightarrow> model \<Rightarrow> variables \<Rightarrow> py_error + constraints" where
  "add_constraints h self vars =
     ebind (emap (\<lambda>i.
              ebind (slot_loop (slot_constraints h self vars i) None
                       (enumerate 0 (map fst (demand_dict self)))) (\<lambda>cs.
              ebind (week_constraints h self vars i) (\<lambda>ws.
              Inr (cs @ ws)))) [0..<M self])
       (\<lambda>css. Inr (concat css))"

section \<open>The objective of Model.schedule_shifts\<close>

definition objective :: "model \<Rightarrow> variables \<Rightarrow> py_error + lin" where
  "objective self vars =
     ebind (emap (\<lambda>(dt, dem).
              ebind (var_get vars (Y1 dt)) (\<lambda>a.
              ebind (var_get vars (Y2 dt)) (\<lambda>b.
              ebind (emap (\<lambda>i. var_get vars (XOt i dt)) [0..<M self]) (\<lambda>os.
              Inr (lscale (1 / of_int dem)
                     (ladd (lscale W1 (ladd (lvar a) (lscale 2 (lvar b))))
                           (lscale (1 - W1) (lsum (map lvar os)))))))))
            (filter (\<lambda>(dt, dem). dem \<noteq> 0) (demand_dict self)))
       (\<lambda>terms. Inr (lsum terms))"

section \<open>Model.solve\<close>

text \<open>
  The solver is not part of the repository: its status and the values that
  \<^verbatim>\<open>solution_value()\<close> reports are parameters. Numbers are exact rationals (the
  rounding error of floating point is not modelled); text conversion of the
  fields of a shift row and the files written are left out.
\<close>

datatype status = OPTIMAL | FEASIBLE | INFEASIBLE | UNBOUNDED | ABNORMAL | MODEL_INVALID | NOT_SOLVED

record shift_row =
  row_staff_id :: int
  start_date_time :: timestamp
  end_date_time :: timestamp

record metrics =
  csv_file :: string
  WDC :: rat
  WOR :: rat
  total_cost :: rat
  solver_status :: string
  shifts :: "shift_row list"

definition py_round :: "nat \<Rightarrow> rat \<Rightarrow> rat" where
  \<comment> \<open>\<^verbatim>\<open>round(q, nd)\<close>: to the nearest multiple of \<open>10 ^ - nd\<close>, a tie to the even one\<close>
  "py_round nd q =
     (let s = 10 ^ nd; y = q * s; f = \<lfloor>y\<rfloor>; r = y - of_int f
      in of_int (if r < 1 / 2 then f else if r > 1 / 2 then f + 1
                 else if even f then f else f + 1) / s)"

fun efold :: "('a \<Rightarrow> 's \<Rightarrow> 'e + 's) \<Rightarrow> 'a list \<Rightarrow> 's \<Rightarrow> 'e + 's" where
  "efold f [] s = Inr s"
| "efold f (x # xs) s = ebind (f x s) (efold f xs)"

definition dict_add :: "(timestamp \<times> rat) list \<Rightarrow> timestamp \<Rightarrow> rat \<Rightarrow> (timestamp \<times> rat) list" where
  \<comment> \<open>\<^verbatim>\<open>d[k] += v\<close> on a \<^verbatim>\<open>defaultdict(float)\<close>\<close>
  "dict_add d k v = AList.update k ((case map_of d k of None \<Rightarrow> 0 | Some q \<Rightarrow> q) + v) d"

type_synonym decode_state = "shift_row list \<times> (timestamp \<times> rat) list \<times> rat"

definition shift_end :: "model \<Rightarrow> variables \<Rightarrow> (var \<Rightarrow> rat) \<Rightarrow> nat \<Rightarrow> timestamp \<Rightarrow> py_error + timestamp" where
  "shift_end self vars sol i dt =
     ebind (get_subset_dts self dt (dt + Timedelta_hours (MAX_SHIFT_HOURS - 1))
              (Some MAX_SHIFT_HOURS)) (\<lambda>shift_dts.
     ebind (emap (\<lambda>d. ebind (var_get vars (X i d)) (\<lambda>v. Inr (d, sol v))) shift_dts) (\<lambda>vals.
     ebind (py_max (map fst (filter (\<lambda>(d, q). q = 1) vals))) (\<lambda>m.
     Inr (m + Timedelta_hours 1))))"

definition decode_slot ::
  "model \<Rightarrow> variables \<Rightarrow> (var \<Rightarrow> rat) \<Rightarrow> nat \<Rightarrow> staff_row \<Rightarrow> timestamp \<Rightarrow> decode_state
   \<Rightarrow> py_error + decode_state" where
  "decode_slot self vars sol i row dt st =
     (case st of (rows, demand_coverage, cost) \<Rightarrow>
        ebind (var_get vars (X i dt)) (\<lambda>xv.
        ebind (var_get vars (XOt i dt)) (\<lambda>ov.
        let cost' = cost + max (hourly_wage row * sol xv) (overtime_hourly_wage row * sol ov)
        in
        ebind (var_get vars (XStart i dt)) (\<lambda>sv.
        ebind (if sol sv \<noteq> 0
               then ebind (shift_end self vars sol i dt) (\<lambda>end_dt.
                      Inr (rows @ [\<lparr>row_staff_id = staff_id row,
                                    start_date_time = dt,
                                    end_date_time = end_dt\<rparr>]))
               else Inr rows) (\<lambda>rows'.
        ebind (dict_get (demand_dict self) dt) (\<lambda>dem.
        Inr (rows',
             dict_add demand_coverage dt (if dem \<noteq> 0 then sol xv / of_int dem else 0),
             cost')))))))"

definition decode :: "model \<Rightarrow> variables \<Rightarrow> (var \<Rightarrow> rat) \<Rightarrow> py_error + decode_state" where
  "decode self vars sol =
     efold (\<lambda>i st.
        ebind (iloc (staff_df self) i) (\<lambda>row.
        efold (decode_slot self vars sol i row) (map fst (demand_dict self)) st))
       [0..<M self] ([], [], 0)"

definition solution_sum :: "model \<Rightarrow> variables \<Rightarrow> (var \<Rightarrow> rat) \<Rightarrow> (nat \<Rightarrow> timestamp \<Rightarrow> var) \<Rightarrow> py_error + rat" where
  \<comment> \<open>\<^verbatim>\<open>sum(d[i][dt].solution_value() for i in range(self.M) for dt in self.demand_dict)\<close>\<close>
  "solution_sum self vars sol d =
     ebind (emap (\<lambda>i. emap (\<lambda>dt. ebind (var_get vars (d i dt)) (\<lambda>v. Inr (sol v)))
                        (map fst (demand_dict self))) [0..<M self])
       (\<lambda>qs. Inr (sum_list (concat qs)))"

definition solve :: "model \<Rightarrow> variables \<Rightarrow> status \<Rightarrow> (var \<Rightarrow> rat) \<Rightarrow> py_error + metrics" where
  "solve self vars status sol =
     ebind (if status = OPTIMAL \<or> status = FEASIBLE then decode self vars sol
            else Inr ([], [], 0)) (\<lambda>(rows, demand_coverage, cost).
     ebind (solution_sum self vars sol X) (\<lambda>total_sh.
     ebind (if total_sh \<noteq> 0
            then ebind (solution_sum self vars sol XOt) (\<lambda>total_ot.
                   Inr (py_round 4 (total_ot / total_sh)))
            else Inr (if demand_coverage \<noteq> [] then 0 else 0)) (\<lambda>wor.
     Inr \<lparr>csv_file = ''output/shift.csv'',
          WDC = (if demand_coverage \<noteq> []
                 then py_round 4 (sum_list (map snd demand_coverage) / of_nat (length demand_coverage))
                 else 0),
          WOR = wor,
          total_cost = py_round 2 cost,
          solver_status = (if status = OPTIMAL then ''optimal'' else ''feasible''),
          shifts = rows\<rparr>)))"

section \<open>Model.schedule_shifts\<close>

type_synonym solver = "variables \<Rightarrow> constraints \<Rightarrow> lin \<Rightarrow> status \<times> (var \<Rightarrow> rat)"

definition schedule_shifts :: "solver option \<Rightarrow> heap \<Rightarrow> model \<Rightarrow> py_error + metrics" where
  \<comment> \<open>\<^verbatim>\<open>CreateSolver\<close> may return nothing; otherwise the solver maps the model it was
      given to a status and to the values it reports\<close>
  "schedule_shifts solver h self =
     (case solver of
        None \<Rightarrow> Inl ValueError
      | Some run \<Rightarrow>
          ebind (add_variables h self) (\<lambda>vars.
          ebind (add_constraints h self vars) (\<lambda>cs.
          ebind (objective self vars) (\<lambda>obj.
          case run vars cs obj of (status, sol) \<Rightarrow> solve self vars status sol))))"

section \<open>The program's entry point\<close>

definition main ::
  "(string \<Rightarrow> timestamp option) \<Rightarrow> solver option \<Rightarrow> heap \<Rightarrow> ref \<Rightarrow> staff_row list \<Rightarrow> py_error + metrics" where
  \<comment> \<open>\<^verbatim>\<open>model = Model(demand_df, staff_df); metrics = model.schedule_shifts()\<close>\<close>
  "main parse solver h demand_ref staff =
     ebind (Model_init parse h demand_ref staff) (\<lambda>(h', model). schedule_shifts solver h' model)"

section \<open>The wording of the specification\<close>

text \<open>A contiguous hourly demand grid of \<open>n\<close> slots that starts at \<open>t0\<close>.\<close>

definition grid :: "timestamp \<Rightarrow> nat \<Rightarrow> timestamp list" where
  "grid t0 n = map (\<lambda>k. t0 + Timedelta_hours (int k)) [0..<n]"

text \<open>
  ``A shift of the minimum required length starting at \<open>t\<close>, occupying slots \<open>t\<close> through
  \<open>t + minShiftHours - 1\<close>, would cross into the next business day.''
\<close>

definition spec_min_shift_crosses_day :: "timestamp \<Rightarrow> bool" where
  "spec_min_shift_crosses_day t = (date_of (t + Timedelta_hours (MIN_SHIFT_HOURS - 1)) > date_of t)"




text \<open>The day-worked linkage and the weekly day-off constraints.\<close>

definition is_day_rule :: "cname \<Rightarrow> bool" where
  "is_day_rule n = (case n of day_link i j \<Rightarrow> True | max_per_week i w \<Rightarrow> True | _ \<Rightarrow> False)"

text \<open>The number of business days of the horizon: \<^verbatim>\<open>len(self.demand_df['bus_day'].unique())\<close>.\<close>

definition horizon_days :: "heap \<Rightarrow> model \<Rightarrow> nat" where
  "horizon_days h self = (case bus_day (h (demand_df self)) of None \<Rightarrow> 0 | Some bds \<Rightarrow> length (unique bds))"


section \<open>Concrete inputs\<close>

text \<open>One member of staff and a demand table of two slots read from text.\<close>

definition ex_parse :: "string \<Rightarrow> timestamp option" where
  "ex_parse s = (if s = ''1970-01-01 00:00:00'' then Some 0
                 else if s = ''1970-01-01 01:00:00'' then Some 3600 else None)"

definition ex_frame :: demand_frame where
  "ex_frame = \<lparr>date_time = [Text ''1970-01-01 00:00:00'', Text ''1970-01-01 01:00:00''],
               demand = [1, 0], bus_day = None, week = None\<rparr>"

definition ex_heap :: heap where
  "ex_heap r = ex_frame"

definition ex_staff :: "staff_row list" where
  "ex_staff = [\<lparr>staff_id = 101, role = ''Manager'', hourly_wage = 963 / 100,
                overtime_hourly_wage = 1444 / 100\<rparr>]"

definition ex_heap' :: heap where
  "ex_heap' = ex_heap(0 := \<lparr>date_time = [Stamp 0, Stamp 3600], demand = [1, 0],
                            bus_day = Some [0, 0], week = Some [1, 1]\<rparr>)"

definition ex_model :: model where
  "ex_model = \<lparr>M = 1, demand_dict = [(0, 1), (3600, 0)], demand_df = 0, staff_df = ex_staff\<rparr>"

definition ex_vars :: variables where
  "ex_vars =
     [(XStart 0 0, \<lparr>lb = 0, ub = 1, integer = True\<rparr>),
      (X 0 0, \<lparr>lb = 0, ub = 1, integer = True\<rparr>),
      (XOt 0 0, \<lparr>lb = 0, ub = 0, integer = False\<rparr>),
      (Y1 0, \<lparr>lb = 0, ub = 1, integer = True\<rparr>),
      (Y2 0, \<lparr>lb = 0, ub = 0, integer = True\<rparr>),
      (XStart 0 3600, \<lparr>lb = 0, ub = 1, integer = True\<rparr>),
      (X 0 3600, \<lparr>lb = 0, ub = 1, integer = True\<rparr>),
      (XOt 0 3600, \<lparr>lb = 0, ub = 0, integer = False\<rparr>),
      (Y1 3600, \<lparr>lb = 0, ub = 1, integer = True\<rparr>),
      (Y2 3600, \<lparr>lb = 0, ub = 0, integer = True\<rparr>),
      (XDay 0 0, \<lparr>lb = 0, ub = 1, integer = True\<rparr>)]"

definition ex_cons :: constraints where
  "ex_cons =
     [(past 0 0, Le (Lin [(1, X 0 0)] 0) (Lin [(1, XStart 0 0)] 0)),
      (rest 0 0, Le (Lin [(1, XStart 0 3600)] 0) (Lin [(- 1, XStart 0 0)] 1)),
      (min_shift 0 0, Ge (Lin [(1, X 0 0), (1, X 0 3600)] 0) (Lin [(2, XStart 0 0)] 0)),
      (max_per_day 0 0, Le (Lin [(1, XStart 0 0), (1, XStart 0 3600)] 0) (Lin [] 1)),
      (dc 0, Ge (Lin [(1, X 0 0), (1, Y1 0), (1, Y2 0)] 0) (Lin [] 1)),
      (past 0 1, Le (Lin [(1, X 0 3600)] 0) (Lin [(1, XStart 0 0), (1, XStart 0 3600)] 0)),
      (rest 0 1, Le (Lin [] 0) (Lin [(0, XStart 0 3600)] 0)),
      (min_shift 0 1, Ge (Lin [(1, X 0 3600)] 0) (Lin [(1, XStart 0 3600)] 0)),
      (max_per_day 0 1, Le (Lin [(1, XStart 0 0), (1, XStart 0 3600)] 0) (Lin [] 1)),
      (dc 1, Ge (Lin [(1, X 0 3600), (1, Y1 3600), (1, Y2 3600)] 0) (Lin [] 0))]"

text \<open>A schedule for it: one shift that starts at the first slot and covers both.\<close>

definition ex_sol :: "var \<Rightarrow> rat" where
  "ex_sol v = (case v of XStart i t \<Rightarrow> (if t = 0 then 1 else 0) | X i t \<Rightarrow> 1 | _ \<Rightarrow> 0)"

text \<open>A single slot at 15:00.\<close>

definition ex15_frame :: demand_frame where
  "ex15_frame = \<lparr>date_time = [Stamp 54000], demand = [1], bus_day = None, week = None\<rparr>"

definition ex15_heap :: heap where
  "ex15_heap r = ex15_frame"

definition ex15_heap' :: heap where
  "ex15_heap' = ex15_heap(0 := \<lparr>date_time = [Stamp 54000], demand = [1],
                                bus_day = Some [0], week = Some [1]\<rparr>)"

definition ex15_model :: model where
  "ex15_model = \<lparr>M = 1, demand_dict = [(54000, 1)], demand_df = 0, staff_df = ex_staff\<rparr>"

definition ex15_vars :: variables where
  "ex15_vars =
     [(XStart 0 54000, \<lparr>lb = 0, ub = 0, integer = True\<rparr>),
      (X 0 54000, \<lparr>lb = 0, ub = 1, integer = True\<rparr>),
      (XOt 0 54000, \<lparr>lb = 0, ub = 1, integer = False\<rparr>),
      (Y1 54000, \<lparr>lb = 0, ub = 1, integer = True\<rparr>),
      (Y2 54000, \<lparr>lb = 0, ub = 0, integer = True\<rparr>),
      (XDay 0 0, \<lparr>lb = 0, ub = 1, integer = True\<rparr>)]"

text \<open>Malformed input: a negative demand, timestamps out of order, no staff.\<close>

definition bad_frame :: demand_frame where
  "bad_frame = \<lparr>date_time = [Stamp 3600, Stamp 0], demand = [- 1, - 2], bus_day = None, week = None\<rparr>"

definition bad_heap :: heap where
  "bad_heap r = bad_frame"

definition bad_sol :: "var \<Rightarrow> rat" where
  "bad_sol v = (case v of Y1 t \<Rightarrow> 1 | _ \<Rightarrow> 0)"

definition bad_solver :: solver where
  "bad_solver vars cs obj = (OPTIMAL, bad_sol)"

text \<open>What the solver reports for every variable when it found no solution.\<close>

definition zero_sol :: "var \<Rightarrow> rat" where
  "zero_sol v = 0"

section \<open>Basic facts\<close>

lemma ebind_Inr [simp]: "ebind (Inr x) f = f x"
  by (simp add: ebind_def)

lemma ebind_Inl [simp]: "ebind (Inl e) f = Inl e"
  by (simp add: ebind_def)

lemma ebind_eq_Inr: "ebind m f = Inr y \<longleftrightarrow> (\<exists>x. m = Inr x \<and> f x = Inr y)"
  by (cases m) auto

lemma emap_all_Inr: "(\<And>x. x \<in> set xs \<Longrightarrow> f x = Inr (g x)) \<Longrightarrow> emap f xs = Inr (map g xs)"
  by (induction xs) auto

lemma emap_Inr_D: "emap f xs = Inr ys \<Longrightarrow> list_all2 (\<lambda>x y. f x = Inr y) xs ys"
proof (induction xs arbitrary: ys)
  case Nil
  then show ?case by simp
next
  case (Cons x xs)
  then show ?case by (auto simp: ebind_eq_Inr)
qed

lemma to_datetime_Stamp: "to_datetime parse (map Stamp ts) = Inr ts"
proof -
  have "emap (\<lambda>c. case c of Stamp t \<Rightarrow> Inr t
                | Text s \<Rightarrow> (case parse s of None \<Rightarrow> Inl ParserError | Some t \<Rightarrow> Inr t)) (map Stamp ts)
        = Inr (map (\<lambda>c. case c of Stamp t \<Rightarrow> t | Text s \<Rightarrow> 0) (map Stamp ts))"
    by (rule emap_all_Inr) auto
  then show ?thesis by (simp add: to_datetime_def comp_def)
qed

lemma stamps_back: "emap (\<lambda>c. case c of Stamp t \<Rightarrow> Inr t | Text s \<Rightarrow> Inl TypeError) (map Stamp ts) = Inr ts"
proof -
  have "emap (\<lambda>c. case c of Stamp t \<Rightarrow> Inr t | Text s \<Rightarrow> Inl TypeError) (map Stamp ts)
        = Inr (map (\<lambda>c. case c of Stamp t \<Rightarrow> t | Text s \<Rightarrow> 0) (map Stamp ts))"
    by (rule emap_all_Inr) auto
  then show ?thesis by (simp add: comp_def)
qed

lemma Model_init_Inr:
  assumes "Model_init parse h0 r staff = Inr (h, self)"
  obtains ts where "to_datetime parse (date_time (h0 r)) = Inr ts"
    and "h = h0(r := (h0 r)\<lparr>date_time := map Stamp ts, bus_day := Some (map date_of ts),
                              week := Some (week_col ts)\<rparr>)"
    and "self = \<lparr>M = length staff, demand_dict = to_dict ts (demand (h0 r)),
                 demand_df = r, staff_df = staff\<rparr>"
  using assms by (auto simp: Model_init_def ebind_eq_Inr Let_def)

lemma Model_init_eq:
  assumes "to_datetime parse (date_time (h0 r)) = Inr ts"
  shows "Model_init parse h0 r staff =
         Inr (h0(r := (h0 r)\<lparr>date_time := map Stamp ts, bus_day := Some (map date_of ts),
                              week := Some (week_col ts)\<rparr>),
              \<lparr>M = length staff, demand_dict = to_dict ts (demand (h0 r)),
                 demand_df = r, staff_df = staff\<rparr>)"
  using assms by (simp add: Model_init_def Let_def)

lemma update_fresh: "k \<notin> fst ` set d \<Longrightarrow> AList.update k v d = d @ [(k, v)]"
  by (induction d) auto

lemma fold_update_distinct:
  "distinct (map fst d @ ts) \<Longrightarrow> length ds = length ts \<Longrightarrow>
   fold (\<lambda>(k, v) d. AList.update k v d) (zip ts ds) d = d @ zip ts ds"
proof (induction ts arbitrary: ds d)
  case Nil
  then show ?case by simp
next
  case (Cons t ts)
  then obtain x xs where ds: "ds = x # xs" by (cases ds) auto
  have fresh: "t \<notin> fst ` set d" using Cons.prems(1) by auto
  have "distinct (map fst (d @ [(t, x)]) @ ts)" using Cons.prems(1) by auto
  then have "fold (\<lambda>(k, v) d. AList.update k v d) (zip ts xs) (d @ [(t, x)]) = (d @ [(t, x)]) @ zip ts xs"
    using Cons.IH Cons.prems(2) ds by simp
  then show ?case using fresh ds by (simp add: update_fresh)
qed

lemma to_dict_distinct: "distinct ts \<Longrightarrow> length ds = length ts \<Longrightarrow> to_dict ts ds = zip ts ds"
  using fold_update_distinct [of "[]" ts ds] by (simp add: to_dict_def)

lemma keys_fold_update:
  "fst ` set (fold (\<lambda>(k, v) d. AList.update k v d) xs d) = fst ` set xs \<union> fst ` set d"
proof (induction xs arbitrary: d)
  case Nil
  then show ?case by simp
next
  case (Cons x xs)
  obtain a b where x: "x = (a, b)" by (cases x)
  have "fst ` set (fold (\<lambda>(k, v) d. AList.update k v d) (x # xs) d)
        = fst ` set xs \<union> fst ` set (AList.update a b d)"
    using Cons.IH [of "AList.update a b d"] by (simp add: x)
  also have "\<dots> = fst ` set xs \<union> ({a} \<union> fst ` set d)"
    by (simp only: dom_update)
  finally show ?case by (simp add: x)
qed

lemma to_dict_keys: "length ds = length ts \<Longrightarrow> fst ` set (to_dict ts ds) = set ts"
proof -
  assume len: "length ds = length ts"
  have "fst ` set (to_dict ts ds) = fst ` set (zip ts ds)"
    using keys_fold_update [of "zip ts ds" "[]"] by (simp add: to_dict_def)
  moreover have "fst ` set (zip ts ds) = set ts"
    using len by (metis map_fst_zip set_map)
  ultimately show ?thesis by simp
qed



lemma set_unique [simp]: "set (unique xs) = set xs"
  by (simp add: unique_def)

lemma distinct_unique [simp]: "distinct (unique xs)"
  by (simp add: unique_def)

lemma length_unique: "length (unique xs) = card (set xs)"
  by (simp add: unique_def length_remdups_card_conv)

lemma list_all2_nthD2: "list_all2 P xs ys \<Longrightarrow> y \<in> set ys \<Longrightarrow> \<exists>x \<in> set xs. P x y"
  by (metis in_set_conv_nth list_all2_conv_all_nth)

lemma list_all2_nthD1: "list_all2 P xs ys \<Longrightarrow> x \<in> set xs \<Longrightarrow> \<exists>y \<in> set ys. P x y"
  by (metis in_set_conv_nth list_all2_conv_all_nth)

text \<open>What the constructor leaves behind.\<close>

lemma Model_init_cols:
  assumes "Model_init parse h0 r staff = Inr (h, self)"
  obtains ts where "to_datetime parse (date_time (h0 r)) = Inr ts"
    and "date_time (h r) = map Stamp ts"
    and "col_date_time h self = Inr ts"
    and "col_bus_day h self = Inr (map date_of ts)"
    and "col_week h self = Inr (week_col ts)"
    and "demand_dict self = to_dict ts (demand (h0 r))"
    and "M self = length staff" and "staff_df self = staff" and "demand_df self = r"
proof -
  from assms obtain ts where ts: "to_datetime parse (date_time (h0 r)) = Inr ts"
    and h: "h = h0(r := (h0 r)\<lparr>date_time := map Stamp ts, bus_day := Some (map date_of ts),
                              week := Some (week_col ts)\<rparr>)"
    and s: "self = \<lparr>M = length staff, demand_dict = to_dict ts (demand (h0 r)),
                 demand_df = r, staff_df = staff\<rparr>"
    by (rule Model_init_Inr)
  show thesis
    by (rule that [OF ts]) (simp_all add: h s col_date_time_def col_bus_day_def col_week_def stamps_back)
qed

text \<open>The variables declared by one pass of the inner loop of add_variables.\<close>

lemma slot_variables_Inr:
  assumes "slot_variables h self i (j, dt) = Inr vs"
  shows "\<exists>bds ys. col_bus_day h self = Inr bds \<and> j < length bds \<and> i < length (staff_df self)
    \<and> vs = [(XStart i dt, x_start_var dt (bds ! j)), (X i dt, BoolVar),
               (XOt i dt, x_ot_var (role (staff_df self ! i)) dt)] @ ys
    \<and> (\<forall>(v, b) \<in> set ys. v = Y1 dt \<or> v = Y2 dt)
    \<and> (int i = int (M self) - 1 \<longrightarrow> Y1 dt \<in> fst ` set ys \<and> Y2 dt \<in> fst ` set ys)"
  using assms
  by (auto simp: slot_variables_def ebind_eq_Inr iloc_def split: if_splits)

lemma add_variables_Inr:
  assumes "add_variables h self = Inr vars"
  obtains vss where "vars = concat vss"
    and "list_all2 (\<lambda>i vs. \<exists>ts svs ds. col_date_time h self = Inr ts
            \<and> emap (slot_variables h self i) (enumerate 0 ts) = Inr svs
            \<and> day_variables h self i = Inr ds \<and> vs = concat svs @ ds) [0..<M self] vss"
proof -
  from assms obtain vss where e: "emap (\<lambda>i.
              ebind (col_date_time h self) (\<lambda>ts.
              ebind (emap (slot_variables h self i) (enumerate 0 ts)) (\<lambda>vs.
              ebind (day_variables h self i) (\<lambda>ds.
              Inr (concat vs @ ds))))) [0..<M self] = Inr vss" and v: "vars = concat vss"
    by (auto simp: add_variables_def ebind_eq_Inr)
  have "list_all2 (\<lambda>i vs. \<exists>ts svs ds. col_date_time h self = Inr ts
            \<and> emap (slot_variables h self i) (enumerate 0 ts) = Inr svs
            \<and> day_variables h self i = Inr ds \<and> vs = concat svs @ ds) [0..<M self] vss"
    using emap_Inr_D [OF e] by (rule list_all2_mono) (auto simp: ebind_eq_Inr)
  with v show thesis by (rule that)
qed

lemma add_variables_staff:
  assumes "add_variables h self = Inr vars" and "i < M self" and "col_date_time h self = Inr ts"
  obtains svs ds where "emap (slot_variables h self i) (enumerate 0 ts) = Inr svs"
    and "day_variables h self i = Inr ds" and "set (concat svs @ ds) \<subseteq> set vars"
proof -
  from assms(1) obtain vss where v: "vars = concat vss"
    and l: "list_all2 (\<lambda>i vs. \<exists>ts svs ds. col_date_time h self = Inr ts
            \<and> emap (slot_variables h self i) (enumerate 0 ts) = Inr svs
            \<and> day_variables h self i = Inr ds \<and> vs = concat svs @ ds) [0..<M self] vss"
    by (rule add_variables_Inr)
  have "i \<in> set [0..<M self]" using assms(2) by simp
  from list_all2_nthD1 [OF l this] obtain vs svs ds where vs: "vs \<in> set vss"
    and e: "emap (slot_variables h self i) (enumerate 0 ts) = Inr svs"
    and d: "day_variables h self i = Inr ds" and eq: "vs = concat svs @ ds"
    using assms(3) by auto
  have "set vs \<subseteq> set (concat vss)" using vs by auto
  then have "set (concat svs @ ds) \<subseteq> set vars" by (simp only: v eq)
  with e d show thesis by (rule that)
qed

lemma add_variables_slot:
  assumes "add_variables h self = Inr vars" and "i < M self" and "col_date_time h self = Inr ts"
    and "j < length ts"
  obtains vs where "slot_variables h self i (j, ts ! j) = Inr vs" and "set vs \<subseteq> set vars"
proof -
  from assms(1-3) obtain svs ds where e: "emap (slot_variables h self i) (enumerate 0 ts) = Inr svs"
    and sub: "set (concat svs @ ds) \<subseteq> set vars"
    by (rule add_variables_staff)
  have "(j, ts ! j) \<in> set (enumerate 0 ts)" using assms(4) by (simp add: in_set_enumerate_eq)
  from list_all2_nthD1 [OF emap_Inr_D [OF e] this] obtain vs where "vs \<in> set svs"
    and "slot_variables h self i (j, ts ! j) = Inr vs" by auto
  then show thesis using sub by (intro that [of vs]) auto
qed

lemma add_variables_cases:
  assumes "add_variables h self = Inr vars" and "col_date_time h self = Inr ts"
    and "(v, b) \<in> set vars"
  shows "(\<exists>i j vs. i < M self \<and> j < length ts \<and> slot_variables h self i (j, ts ! j) = Inr vs \<and> (v, b) \<in> set vs)
       \<or> (\<exists>i ds. i < M self \<and> day_variables h self i = Inr ds \<and> (v, b) \<in> set ds)"
proof -
  from assms(1) obtain vss where v: "vars = concat vss"
    and l: "list_all2 (\<lambda>i vs. \<exists>ts svs ds. col_date_time h self = Inr ts
            \<and> emap (slot_variables h self i) (enumerate 0 ts) = Inr svs
            \<and> day_variables h self i = Inr ds \<and> vs = concat svs @ ds) [0..<M self] vss"
    by (rule add_variables_Inr)
  from assms(3) v obtain vs where vs: "vs \<in> set vss" "(v, b) \<in> set vs" by auto
  from list_all2_nthD2 [OF l vs(1)] obtain i svs ds where i: "i < M self"
    and e: "emap (slot_variables h self i) (enumerate 0 ts) = Inr svs"
    and d: "day_variables h self i = Inr ds" and eq: "vs = concat svs @ ds"
    using assms(2) by auto
  from vs(2) eq consider sv where "sv \<in> set svs" "(v, b) \<in> set sv" | "(v, b) \<in> set ds" by auto
  then show ?thesis
  proof cases
    case 1
    from list_all2_nthD2 [OF emap_Inr_D [OF e] 1(1)] obtain j dt where
      "(j, dt) \<in> set (enumerate 0 ts)" "slot_variables h self i (j, dt) = Inr sv" by auto
    then show ?thesis using i 1(2) by (auto simp: in_set_enumerate_eq)
  next
    case 2
    then show ?thesis using i d by auto
  qed
qed

lemma emap_ex_Inr: "(\<And>x. x \<in> set xs \<Longrightarrow> \<exists>y. f x = Inr y) \<Longrightarrow> \<exists>ys. emap f xs = Inr ys"
proof (induction xs)
  case Nil
  then show ?case by simp
next
  case (Cons x xs)
  then obtain y ys where "f x = Inr y" "emap f xs = Inr ys" by (metis list.set_intros)
  then show ?case by simp
qed

lemma first_hours_iff: "dt < midnight (date_of dt) + Timedelta_hours k \<longleftrightarrow> hour_of dt < k"
proof -
  define m where "m = dt mod 86400"
  have a: "dt = dt div 86400 * 86400 + m" by (simp add: m_def)
  have b: "m = 3600 * (m div 3600) + m mod 3600" by simp
  have c: "0 \<le> m mod 3600" "m mod 3600 < 3600" by simp_all
  have "dt < midnight (date_of dt) + Timedelta_hours k \<longleftrightarrow> m < k * 3600"
    unfolding midnight_def date_of_def Timedelta_hours_def using a by linarith
  also have "\<dots> \<longleftrightarrow> m div 3600 < k" using b c by linarith
  finally show ?thesis by (simp add: hour_of_def m_def)
qed

lemma within_boundsD:
  "within_bounds asg vars \<Longrightarrow> (v, b) \<in> set vars \<Longrightarrow> lb b \<le> asg v \<and> asg v \<le> ub b \<and> (integer b \<longrightarrow> is_int (asg v))"
  by (auto simp: within_bounds_def list_all_iff)

lemma day_variables_Inr:
  assumes "col_bus_day h self = Inr bds"
  shows "day_variables h self i = Inr (map (\<lambda>b. (XDay i (midnight b), BoolVar)) (unique bds))"
  using assms by (simp add: day_variables_def)

text \<open>Every slot of the table gets its three variables, with the bounds the source sets.\<close>

lemma declared_slot:
  assumes init: "Model_init parse h0 r staff = Inr (h, self)"
    and vars: "add_variables h self = Inr vars"
    and i: "i < M self" and dt: "Stamp dt \<in> set (date_time (h r))"
  shows "(XStart i dt, x_start_var dt (date_of dt)) \<in> set vars"
    and "(X i dt, BoolVar) \<in> set vars"
    and "(XOt i dt, x_ot_var (role (staff_df self ! i)) dt) \<in> set vars"
    and "(XDay i (midnight (date_of dt)), BoolVar) \<in> set vars"
    and "int i = int (M self) - 1 \<Longrightarrow> Y1 dt \<in> fst ` set vars \<and> Y2 dt \<in> fst ` set vars"
proof -
  from init obtain ts where cells: "date_time (h r) = map Stamp ts"
    and cdt: "col_date_time h self = Inr ts" and cbd: "col_bus_day h self = Inr (map date_of ts)"
    by (rule Model_init_cols)
  from dt cells obtain j where j: "j < length ts" "ts ! j = dt"
    by (auto simp: in_set_conv_nth)
  from add_variables_slot [OF vars i cdt j(1)] obtain vs
    where vs: "slot_variables h self i (j, dt) = Inr vs" "set vs \<subseteq> set vars"
    using j(2) by auto
  from slot_variables_Inr [OF vs(1)] obtain bds ys where b: "col_bus_day h self = Inr bds"
    and eq0: "vs = [(XStart i dt, x_start_var dt (bds ! j)), (X i dt, BoolVar),
               (XOt i dt, x_ot_var (role (staff_df self ! i)) dt)] @ ys"
    and ys: "int i = int (M self) - 1 \<longrightarrow> Y1 dt \<in> fst ` set ys \<and> Y2 dt \<in> fst ` set ys"
    by blast
  have bds: "bds = map date_of ts" using b cbd by simp
  have d: "map date_of ts ! j = date_of dt" using j by simp
  have eq: "vs = [(XStart i dt, x_start_var dt (date_of dt)), (X i dt, BoolVar),
               (XOt i dt, x_ot_var (role (staff_df self ! i)) dt)] @ ys"
    using eq0 by (simp add: bds d)
  show "(XStart i dt, x_start_var dt (date_of dt)) \<in> set vars"
    and "(X i dt, BoolVar) \<in> set vars"
    and "(XOt i dt, x_ot_var (role (staff_df self ! i)) dt) \<in> set vars"
    using vs(2) eq by auto
  show "Y1 dt \<in> fst ` set vars \<and> Y2 dt \<in> fst ` set vars" if "int i = int (M self) - 1"
    using ys that vs(2) eq by auto
  from add_variables_staff [OF vars i cdt] obtain svs ds where
    ds: "day_variables h self i = Inr ds" "set (concat svs @ ds) \<subseteq> set vars" by blast
  have "ds = map (\<lambda>b. (XDay i (midnight b), BoolVar)) (unique (map date_of ts))"
    using ds(1) day_variables_Inr [OF cbd, of i] by simp
  moreover have "date_of dt \<in> set (map date_of ts)" using j by auto
  ultimately have "(XDay i (midnight (date_of dt)), BoolVar) \<in> set ds" by auto
  then show "(XDay i (midnight (date_of dt)), BoolVar) \<in> set vars" using ds(2) by auto
qed

text \<open>And nothing else is declared.\<close>

lemma declared_only:
  assumes init: "Model_init parse h0 r staff = Inr (h, self)"
    and vars: "add_variables h self = Inr vars"
    and mem: "(v, b) \<in> set vars"
  shows "(\<exists>i dt. i < M self \<and> Stamp dt \<in> set (date_time (h r)) \<and>
            ((v, b) = (XStart i dt, x_start_var dt (date_of dt)) \<or> (v, b) = (X i dt, BoolVar)
             \<or> (v, b) = (XOt i dt, x_ot_var (role (staff_df self ! i)) dt)
             \<or> v = Y1 dt \<or> v = Y2 dt))
       \<or> (\<exists>i d. i < M self \<and> (v, b) = (XDay i d, BoolVar))"
proof -
  from init obtain ts where cells: "date_time (h r) = map Stamp ts"
    and cdt: "col_date_time h self = Inr ts" and cbd: "col_bus_day h self = Inr (map date_of ts)"
    by (rule Model_init_cols)
  from add_variables_cases [OF vars cdt mem]
  consider i j vs where "i < M self" "j < length ts" "slot_variables h self i (j, ts ! j) = Inr vs" "(v, b) \<in> set vs"
    | i ds where "i < M self" "day_variables h self i = Inr ds" "(v, b) \<in> set ds"
    by blast
  then show ?thesis
  proof cases
    case 1
    from slot_variables_Inr [OF 1(3)] obtain bds ys where b: "col_bus_day h self = Inr bds"
      and eq0: "vs = [(XStart i (ts ! j), x_start_var (ts ! j) (bds ! j)), (X i (ts ! j), BoolVar),
               (XOt i (ts ! j), x_ot_var (role (staff_df self ! i)) (ts ! j))] @ ys"
      and ys: "\<forall>(v, b) \<in> set ys. v = Y1 (ts ! j) \<or> v = Y2 (ts ! j)"
      by blast
    have bds: "bds = map date_of ts" using b cbd by simp
    have d: "map date_of ts ! j = date_of (ts ! j)" using 1(2) by simp
    have st: "Stamp (ts ! j) \<in> set (date_time (h r))" using 1(2) cells by simp
    from 1(4) eq0 have "(v, b) = (XStart i (ts ! j), x_start_var (ts ! j) (date_of (ts ! j)))
        \<or> (v, b) = (X i (ts ! j), BoolVar)
        \<or> (v, b) = (XOt i (ts ! j), x_ot_var (role (staff_df self ! i)) (ts ! j))
        \<or> (v, b) \<in> set ys"
      by (simp add: bds d)
    moreover have "v = Y1 (ts ! j) \<or> v = Y2 (ts ! j)" if "(v, b) \<in> set ys"
      using ys that by blast
    ultimately have "(v, b) = (XStart i (ts ! j), x_start_var (ts ! j) (date_of (ts ! j)))
        \<or> (v, b) = (X i (ts ! j), BoolVar)
        \<or> (v, b) = (XOt i (ts ! j), x_ot_var (role (staff_df self ! i)) (ts ! j))
        \<or> v = Y1 (ts ! j) \<or> v = Y2 (ts ! j)"
      by blast
    with 1(1) st show ?thesis by blast
  next
    case 2
    have "ds = map (\<lambda>b. (XDay i (midnight b), BoolVar)) (unique (map date_of ts))"
      using 2(2) day_variables_Inr [OF cbd, of i] by simp
    with 2(3) obtain d where "(v, b) = (XDay i d, BoolVar)" by auto
    with 2(1) show ?thesis by blast
  qed
qed

section \<open>The concrete inputs, evaluated\<close>

lemma ex_init: "Model_init ex_parse ex_heap 0 ex_staff = Inr (ex_heap', ex_model)"
proof -
  have "to_datetime ex_parse (date_time (ex_heap 0)) = Inr [0, 3600]"
    by (simp add: to_datetime_def ex_heap_def ex_frame_def ex_parse_def)
  with Model_init_eq [of ex_parse ex_heap 0 "[0, 3600]" ex_staff] show ?thesis
    by (simp add: ex_heap'_def ex_model_def ex_heap_def ex_frame_def date_of_def week_col_def
        to_dict_def ex_staff_def)
qed

lemma ex_add_variables: "add_variables ex_heap' ex_model = Inr ex_vars"
  by code_simp

lemma ex_add_constraints: "add_constraints ex_heap' ex_model ex_vars = Inr ex_cons"
  by code_simp

lemma ex_within_bounds: "within_bounds ex_sol ex_vars"
  by code_simp

lemma ex_satisfies: "satisfies ex_sol ex_cons"
  by code_simp

lemma ex_slot0: "Stamp 0 \<in> set (date_time (ex_heap' 0))"
  by (simp add: ex_heap'_def)

lemma ex_slot1: "Stamp 3600 \<in> set (date_time (ex_heap' 0))"
  by (simp add: ex_heap'_def)

lemma ex_M: "0 < M ex_model"
  by (simp add: ex_model_def)

lemma ex15_init: "Model_init ex_parse ex15_heap 0 ex_staff = Inr (ex15_heap', ex15_model)"
proof -
  have "to_datetime ex_parse (date_time (ex15_heap 0)) = Inr [54000]"
    by (simp add: to_datetime_def ex15_heap_def ex15_frame_def)
  with Model_init_eq [of ex_parse ex15_heap 0 "[54000]" ex_staff] show ?thesis
    by (simp add: ex15_heap'_def ex15_model_def ex15_heap_def ex15_frame_def date_of_def
        week_col_def to_dict_def ex_staff_def)
qed

lemma ex15_add_variables: "add_variables ex15_heap' ex15_model = Inr ex15_vars"
  by code_simp

lemma ex_table: "to_datetime ex_parse (date_time (ex_heap 0)) = Inr (grid 0 2)"
  by code_simp

lemma ex_len: "length (demand (ex_heap 0)) = 2"
  by (simp add: ex_heap_def ex_frame_def)

lemma ex_grid: "grid 0 2 = [0, 3600]"
  by code_simp

section \<open>Model construction\<close>

text \<open>
  C10. Constructing a Model writes into the caller's demand table: its date_time column
  becomes Timestamps and the columns bus_day and week are added to that same object,
  which the model then refers to; a table that had no bus_day column is changed.
\<close>

theorem Model_init_mutates_callers_frame:
  assumes "to_datetime parse (date_time (h0 r)) = Inr ts"
  shows "\<exists>h self. Model_init parse h0 r staff = Inr (h, self) \<and> demand_df self = r
      \<and> h r = (h0 r)\<lparr>date_time := map Stamp ts, bus_day := Some (map date_of ts),
                       week := Some (week_col ts)\<rparr>
      \<and> (\<forall>r'. r' \<noteq> r \<longrightarrow> h r' = h0 r')
      \<and> (bus_day (h0 r) = None \<longrightarrow> h r \<noteq> h0 r)"
proof -
  let ?f = "(h0 r)\<lparr>date_time := map Stamp ts, bus_day := Some (map date_of ts),
                       week := Some (week_col ts)\<rparr>"
  have "bus_day (h0 r) \<noteq> None" if "?f = h0 r"
  proof -
    from that [symmetric] have "bus_day (h0 r) = bus_day ?f" by (rule arg_cong)
    then show ?thesis by simp
  qed
  then have "bus_day (h0 r) = None \<longrightarrow> ?f \<noteq> h0 r" by blast
  then show ?thesis using Model_init_eq [of parse h0 r ts staff] assms by simp
qed

theorem Model_init_mutates_callers_frame_witness:
  "to_datetime ex_parse (date_time (ex_heap 0)) = Inr [0, 3600]
   \<and> (\<exists>h self. Model_init ex_parse ex_heap 0 ex_staff = Inr (h, self) \<and> demand_df self = 0
      \<and> h 0 = (ex_heap 0)\<lparr>date_time := map Stamp [0, 3600], bus_day := Some (map date_of [0, 3600]),
                       week := Some (week_col [0, 3600])\<rparr>
      \<and> (\<forall>r'. r' \<noteq> 0 \<longrightarrow> h r' = ex_heap r')
      \<and> (bus_day (ex_heap 0) = None \<longrightarrow> h 0 \<noteq> ex_heap 0))"
proof -
  have p: "to_datetime ex_parse (date_time (ex_heap 0)) = Inr [0, 3600]"
    by (simp add: to_datetime_def ex_heap_def ex_frame_def ex_parse_def)
  from Model_init_mutates_callers_frame [of ex_parse ex_heap 0 "[0, 3600]" ex_staff, OF p] p
  show ?thesis by blast
qed

lemma dict_get_to_dict:
  assumes "length ds = length ts" and "dt \<in> set ts"
  shows "\<exists>dem. dict_get (to_dict ts ds) dt = Inr dem"
proof -
  have "dt \<in> fst ` set (to_dict ts ds)" using assms by (simp add: to_dict_keys)
  then have "map_of (to_dict ts ds) dt \<noteq> None" by (simp add: map_of_eq_None_iff)
  then show ?thesis by (auto simp: dict_get_def)
qed

text \<open>
  C2 (amended). Malformed input is not rejected: whatever the order and spacing of the
  timestamps, whatever the demand values and however many staff there are (none
  included), construction returns a model and the variable builder runs to its end.
\<close>

theorem no_input_validation:
  assumes ts: "to_datetime parse (date_time (h0 r)) = Inr ts"
    and len: "length (demand (h0 r)) = length ts"
  shows "\<exists>h self vars. Model_init parse h0 r staff = Inr (h, self) \<and> add_variables h self = Inr vars"
proof -
  obtain h self where init: "Model_init parse h0 r staff = Inr (h, self)"
    using Model_init_eq [of parse h0 r ts staff] ts by blast
  from init obtain ts' where ts': "to_datetime parse (date_time (h0 r)) = Inr ts'"
    and cdt: "col_date_time h self = Inr ts'" and cbd: "col_bus_day h self = Inr (map date_of ts')"
    and dd: "demand_dict self = to_dict ts' (demand (h0 r))"
    and m: "M self = length staff" and st: "staff_df self = staff"
    by (rule Model_init_cols)
  have eq: "ts' = ts" using ts ts' by simp
  have slot: "\<exists>vs. slot_variables h self i jdt = Inr vs"
    if i: "i < M self" and jdt: "jdt \<in> set (enumerate 0 ts)" for i jdt
  proof -
    obtain j dt where p: "jdt = (j, dt)" by (cases jdt)
    with jdt have j: "j < length ts" "dt = ts ! j" by (auto simp: in_set_enumerate_eq)
    then have "dt \<in> set ts" by simp
    from dict_get_to_dict [OF len this] obtain dem
      where "dict_get (demand_dict self) dt = Inr dem" using dd eq by auto
    then show ?thesis using i j cbd m st eq
      by (simp add: p slot_variables_def iloc_def)
  qed
  have staff: "\<exists>vs. ebind (col_date_time h self) (\<lambda>ts.
              ebind (emap (slot_variables h self i) (enumerate 0 ts)) (\<lambda>vs.
              ebind (day_variables h self i) (\<lambda>ds.
              Inr (concat vs @ ds)))) = Inr vs" if i: "i \<in> set [0..<M self]" for i
  proof -
    from i have "i < M self" by simp
    then obtain svs where "emap (slot_variables h self i) (enumerate 0 ts) = Inr svs"
      using emap_ex_Inr [of "enumerate 0 ts" "slot_variables h self i"] slot by blast
    then show ?thesis using cdt eq day_variables_Inr [OF cbd, of i] by simp
  qed
  have "\<exists>vss. emap (\<lambda>i. ebind (col_date_time h self) (\<lambda>ts.
              ebind (emap (slot_variables h self i) (enumerate 0 ts)) (\<lambda>vs.
              ebind (day_variables h self i) (\<lambda>ds.
              Inr (concat vs @ ds))))) [0..<M self] = Inr vss"
    by (rule emap_ex_Inr) (rule staff)
  then obtain vss where "emap (\<lambda>i. ebind (col_date_time h self) (\<lambda>ts.
              ebind (emap (slot_variables h self i) (enumerate 0 ts)) (\<lambda>vs.
              ebind (day_variables h self i) (\<lambda>ds.
              Inr (concat vs @ ds))))) [0..<M self] = Inr vss" by blast
  then have "add_variables h self = Inr (concat vss)" by (simp add: add_variables_def)
  with init show ?thesis by blast
qed

theorem no_input_validation_witness:
  "to_datetime ex_parse (date_time (bad_heap 0)) = Inr [3600, 0]
   \<and> length (demand (bad_heap 0)) = length [3600, 0 :: int]
   \<and> (\<exists>h self vars. Model_init ex_parse bad_heap 0 [] = Inr (h, self) \<and> add_variables h self = Inr vars)"
proof -
  have p: "to_datetime ex_parse (date_time (bad_heap 0)) = Inr [3600, 0]"
    by (simp add: to_datetime_def bad_heap_def bad_frame_def)
  have q: "length (demand (bad_heap 0)) = length [3600, 0 :: int]"
    by (simp add: bad_heap_def bad_frame_def)
  from no_input_validation [of ex_parse bad_heap 0 "[3600, 0]" "[]", OF p q] p q
  show ?thesis by blast
qed

theorem malformed_input_scheduled_counterexample:
  "main ex_parse (Some bad_solver) bad_heap 0 ex_staff =
     Inr \<lparr>csv_file = ''output/shift.csv'', WDC = 0, WOR = 0, total_cost = 0,
          solver_status = ''optimal'', shifts = []\<rparr>"
  by code_simp

section \<open>Bounds of the variables\<close>

lemma x_ot_var_fixed:
  "r \<in> set ROLE_OT_PROHIBITED \<or> hour_of dt < MIN_SHIFT_HOURS \<Longrightarrow>
   x_ot_var r dt = \<lparr>lb = 0, ub = 0, integer = False\<rparr>"
  by (simp add: x_ot_var_def NumVar_def SetBounds_def)

lemma x_start_var_eq:
  "x_start_var dt (date_of dt) =
     (if date_of (dt + Timedelta_hours MIN_SHIFT_HOURS) > date_of dt
      then \<lparr>lb = 0, ub = 0, integer = True\<rparr> else \<lparr>lb = 0, ub = 1, integer = True\<rparr>)"
  by (simp add: x_start_var_def IntVar_def SetBounds_def)

text \<open>
  C5. For every staff member \<open>i\<close> and every slot \<open>dt\<close> of the demand table, when the role of
  \<open>i\<close> is in the overtime-prohibited set or \<open>dt\<close> lies within the first MIN_SHIFT_HOURS
  hours of its business day, the variable \<open>x_ot[i][dt]\<close> is declared with lower and
  upper bound 0, and so has the value 0 in every assignment within the bounds.
\<close>

theorem overtime_fixed_to_zero:
  assumes init: "Model_init parse h0 r staff = Inr (h, self)"
    and vars: "add_variables h self = Inr vars"
    and i: "i < M self" and dt: "Stamp dt \<in> set (date_time (h r))"
    and cond: "role (staff_df self ! i) \<in> set ROLE_OT_PROHIBITED
               \<or> dt < midnight (date_of dt) + Timedelta_hours MIN_SHIFT_HOURS"
  shows "(XOt i dt, \<lparr>lb = 0, ub = 0, integer = False\<rparr>) \<in> set vars
       \<and> (\<forall>b. (XOt i dt, b) \<in> set vars \<longrightarrow> lb b = 0 \<and> ub b = 0)
       \<and> (\<forall>asg. within_bounds asg vars \<longrightarrow> asg (XOt i dt) = 0)"
proof -
  from cond have c: "role (staff_df self ! i) \<in> set ROLE_OT_PROHIBITED \<or> hour_of dt < MIN_SHIFT_HOURS"
    by (simp add: first_hours_iff)
  have fixed: "x_ot_var (role (staff_df self ! i)) dt = \<lparr>lb = 0, ub = 0, integer = False\<rparr>"
    using c by (rule x_ot_var_fixed)
  have mem: "(XOt i dt, \<lparr>lb = 0, ub = 0, integer = False\<rparr>) \<in> set vars"
    using declared_slot(3) [OF init vars i dt] fixed by simp
  have only: "lb b = 0 \<and> ub b = 0" if "(XOt i dt, b) \<in> set vars" for b
  proof -
    from declared_only [OF init vars that]
    have "b = x_ot_var (role (staff_df self ! i)) dt" by auto
    then show ?thesis using fixed by simp
  qed
  have "asg (XOt i dt) = 0" if "within_bounds asg vars" for asg
    using within_boundsD [OF that mem] by simp
  with mem only show ?thesis by blast
qed

theorem overtime_fixed_to_zero_witness:
  "Model_init ex_parse ex_heap 0 ex_staff = Inr (ex_heap', ex_model)
   \<and> add_variables ex_heap' ex_model = Inr ex_vars
   \<and> 0 < M ex_model \<and> Stamp 0 \<in> set (date_time (ex_heap' 0))
   \<and> (0 :: int) < midnight (date_of 0) + Timedelta_hours MIN_SHIFT_HOURS
   \<and> (XOt 0 0, \<lparr>lb = 0, ub = 0, integer = False\<rparr>) \<in> set ex_vars
   \<and> within_bounds ex_sol ex_vars \<and> ex_sol (XOt 0 0) = 0"
proof -
  have c: "(0 :: int) < midnight (date_of 0) + Timedelta_hours MIN_SHIFT_HOURS"
    by (simp add: midnight_def date_of_def Timedelta_hours_def MIN_SHIFT_HOURS_def)
  from overtime_fixed_to_zero [OF ex_init ex_add_variables ex_M ex_slot0 disjI2 [OF c]]
  show ?thesis using ex_init ex_add_variables ex_M ex_slot0 c ex_within_bounds by blast
qed

text \<open>
  C8 (amended). The variable \<open>x_start[i][dt]\<close> is declared with bounds 0 and 0 exactly when
  the timestamp \<open>dt + MIN_SHIFT_HOURS\<close> hours, the end of a shift of minimum length
  that starts at \<open>dt\<close>, falls on a later date than \<open>dt\<close>; otherwise it is an integer
  variable with bounds 0 and 1.
\<close>

theorem start_fixed_iff_min_shift_ends_next_day:
  assumes init: "Model_init parse h0 r staff = Inr (h, self)"
    and vars: "add_variables h self = Inr vars"
    and i: "i < M self" and dt: "Stamp dt \<in> set (date_time (h r))"
  shows "((XStart i dt, b) \<in> set vars) =
         (b = (if date_of (dt + Timedelta_hours MIN_SHIFT_HOURS) > date_of dt
               then \<lparr>lb = 0, ub = 0, integer = True\<rparr> else \<lparr>lb = 0, ub = 1, integer = True\<rparr>))"
proof
  assume "(XStart i dt, b) \<in> set vars"
  from declared_only [OF init vars this] have "b = x_start_var dt (date_of dt)" by auto
  then show "b = (if date_of (dt + Timedelta_hours MIN_SHIFT_HOURS) > date_of dt
               then \<lparr>lb = 0, ub = 0, integer = True\<rparr> else \<lparr>lb = 0, ub = 1, integer = True\<rparr>)"
    by (simp only: x_start_var_eq)
next
  assume "b = (if date_of (dt + Timedelta_hours MIN_SHIFT_HOURS) > date_of dt
               then \<lparr>lb = 0, ub = 0, integer = True\<rparr> else \<lparr>lb = 0, ub = 1, integer = True\<rparr>)"
  then have "b = x_start_var dt (date_of dt)" by (simp only: x_start_var_eq)
  then show "(XStart i dt, b) \<in> set vars" using declared_slot(1) [OF init vars i dt] by simp
qed

theorem start_fixed_iff_min_shift_ends_next_day_witness:
  "Model_init ex_parse ex15_heap 0 ex_staff = Inr (ex15_heap', ex15_model)
   \<and> add_variables ex15_heap' ex15_model = Inr ex15_vars
   \<and> 0 < M ex15_model \<and> Stamp 54000 \<in> set (date_time (ex15_heap' 0))
   \<and> date_of (54000 + Timedelta_hours MIN_SHIFT_HOURS) > date_of 54000
   \<and> (XStart 0 54000, \<lparr>lb = 0, ub = 0, integer = True\<rparr>) \<in> set ex15_vars"
proof -
  have m: "0 < M ex15_model" by (simp add: ex15_model_def)
  have s: "Stamp 54000 \<in> set (date_time (ex15_heap' 0))" by (simp add: ex15_heap'_def)
  have d: "date_of (54000 + Timedelta_hours MIN_SHIFT_HOURS) > date_of 54000"
    by (simp add: date_of_def Timedelta_hours_def MIN_SHIFT_HOURS_def)
  from start_fixed_iff_min_shift_ends_next_day [OF ex15_init ex15_add_variables m s,
      of "\<lparr>lb = 0, ub = 0, integer = True\<rparr>"] d
  have "(XStart 0 54000, \<lparr>lb = 0, ub = 0, integer = True\<rparr>) \<in> set ex15_vars" by simp
  with ex15_init ex15_add_variables m s d show ?thesis by blast
qed

theorem start_fixed_although_slots_in_day_counterexample:
  "Model_init ex_parse ex15_heap 0 ex_staff = Inr (ex15_heap', ex15_model)
   \<and> add_variables ex15_heap' ex15_model = Inr ex15_vars
   \<and> (XStart 0 54000, \<lparr>lb = 0, ub = 0, integer = True\<rparr>) \<in> set ex15_vars
   \<and> \<not> spec_min_shift_crosses_day 54000"
proof -
  have "(XStart 0 54000, \<lparr>lb = 0, ub = 0, integer = True\<rparr>) \<in> set ex15_vars"
    by (simp add: ex15_vars_def)
  moreover have "\<not> spec_min_shift_crosses_day 54000"
    by (simp add: spec_min_shift_crosses_day_def date_of_def Timedelta_hours_def MIN_SHIFT_HOURS_def)
  ultimately show ?thesis using ex15_init ex15_add_variables by blast
qed

section \<open>The structure of the constraint list\<close>

lemma slot_constraints_Inr:
  assumes "slot_constraints h self vars i seen (j, dt) = Inr (cs, seen')"
  shows "\<exists>bds b c_past rest_dts c_rest shift_dts c_min pot extra c_ot c_day c_link c_dc.
     col_bus_day h self = Inr bds \<and> iloc bds j = Inr b
     \<and> past_constraint self vars i j dt (midnight b) = Inr c_past
     \<and> rest_window self dt = Inr rest_dts
     \<and> rest_constraint vars i j dt rest_dts = Inr c_rest
     \<and> shift_window self dt = Inr shift_dts
     \<and> min_shift_constraint vars i j dt shift_dts = Inr c_min
     \<and> overtime_window self (midnight b + Timedelta_hours 23) shift_dts = Inr pot
     \<and> additional_rest_window self rest_dts = Inr extra
     \<and> emap (overtime_constraints vars i j dt extra) (enumerate 0 pot) = Inr c_ot
     \<and> max_per_day_constraint self vars i j (midnight b) (midnight b + Timedelta_hours 23) = Inr c_day
     \<and> (if Some (midnight b) \<noteq> seen \<and> length (unique bds) > MAX_DAYS_PER_WEEK
         then (\<exists>c. day_link_constraint self vars i j (midnight b) (midnight b + Timedelta_hours 23) = Inr c
                  \<and> c_link = [c]) \<and> seen' = Some (midnight b)
         else c_link = [] \<and> seen' = seen)
     \<and> (if int i = int (M self) - 1
         then (\<exists>c. dc_constraint self vars j dt = Inr c \<and> c_dc = [c])
         else c_dc = [])
     \<and> cs = [c_past, c_rest, c_min] @ concat c_ot @ [c_day] @ c_link @ c_dc"
proof -
  from assms obtain bds where 1: "col_bus_day h self = Inr bds"
    and r1: "ebind (iloc bds j) (\<lambda>b.
        let bus_start = midnight b;
            bus_eod = bus_start + Timedelta_hours 23
        in
        ebind (past_constraint self vars i j dt bus_start) (\<lambda>c_past.
        ebind (rest_window self dt) (\<lambda>rest_dts.
        ebind (rest_constraint vars i j dt rest_dts) (\<lambda>c_rest.
        ebind (shift_window self dt) (\<lambda>shift_dts.
        ebind (min_shift_constraint vars i j dt shift_dts) (\<lambda>c_min.
        ebind (overtime_window self bus_eod shift_dts) (\<lambda>potential_overtime_dts.
        ebind (additional_rest_window self rest_dts) (\<lambda>additional_rest_dts.
        ebind (emap (overtime_constraints vars i j dt additional_rest_dts)
                 (enumerate 0 potential_overtime_dts)) (\<lambda>c_ot.
        ebind (max_per_day_constraint self vars i j bus_start bus_eod) (\<lambda>c_day.
        ebind (if Some bus_start \<noteq> seen \<and> length (unique bds) > MAX_DAYS_PER_WEEK
               then ebind (day_link_constraint self vars i j bus_start bus_eod) (\<lambda>c.
                      Inr ([c], Some bus_start))
               else Inr ([], seen)) (\<lambda>(c_link, last_seen_date').
        ebind (if int i = int (M self) - 1
               then ebind (dc_constraint self vars j dt) (\<lambda>c. Inr [c])
               else Inr []) (\<lambda>c_dc.
        Inr ([c_past, c_rest, c_min] @ concat c_ot @ [c_day] @ c_link @ c_dc,
             last_seen_date'))))))))))))) = Inr (cs, seen')"
    unfolding slot_constraints_def prod.case ebind_eq_Inr by blast
  from r1 obtain b where 2: "iloc bds j = Inr b" and r2: "ebind (past_constraint self vars i j dt (midnight b)) (\<lambda>c_past.
        ebind (rest_window self dt) (\<lambda>rest_dts.
        ebind (rest_constraint vars i j dt rest_dts) (\<lambda>c_rest.
        ebind (shift_window self dt) (\<lambda>shift_dts.
        ebind (min_shift_constraint vars i j dt shift_dts) (\<lambda>c_min.
        ebind (overtime_window self (midnight b + Timedelta_hours 23) shift_dts) (\<lambda>potential_overtime_dts.
        ebind (additional_rest_window self rest_dts) (\<lambda>additional_rest_dts.
        ebind (emap (overtime_constraints vars i j dt additional_rest_dts)
                 (enumerate 0 potential_overtime_dts)) (\<lambda>c_ot.
        ebind (max_per_day_constraint self vars i j (midnight b) (midnight b + Timedelta_hours 23)) (\<lambda>c_day.
        ebind (if Some (midnight b) \<noteq> seen \<and> length (unique bds) > MAX_DAYS_PER_WEEK
               then ebind (day_link_constraint self vars i j (midnight b) (midnight b + Timedelta_hours 23)) (\<lambda>c.
                      Inr ([c], Some (midnight b)))
               else Inr ([], seen)) (\<lambda>(c_link, last_seen_date').
        ebind (if int i = int (M self) - 1
               then ebind (dc_constraint self vars j dt) (\<lambda>c. Inr [c])
               else Inr []) (\<lambda>c_dc.
        Inr ([c_past, c_rest, c_min] @ concat c_ot @ [c_day] @ c_link @ c_dc,
             last_seen_date')))))))))))) = Inr (cs, seen')"
    unfolding ebind_eq_Inr Let_def by blast
  from r2 obtain c_past rest_dts c_rest shift_dts c_min pot extra c_ot c_day lk
    where 3: "past_constraint self vars i j dt (midnight b) = Inr c_past"
      "rest_window self dt = Inr rest_dts"
      "rest_constraint vars i j dt rest_dts = Inr c_rest"
      "shift_window self dt = Inr shift_dts"
      "min_shift_constraint vars i j dt shift_dts = Inr c_min"
      "overtime_window self (midnight b + Timedelta_hours 23) shift_dts = Inr pot"
      "additional_rest_window self rest_dts = Inr extra"
      "emap (overtime_constraints vars i j dt extra) (enumerate 0 pot) = Inr c_ot"
      "max_per_day_constraint self vars i j (midnight b) (midnight b + Timedelta_hours 23) = Inr c_day"
    and 4: "(if Some (midnight b) \<noteq> seen \<and> length (unique bds) > MAX_DAYS_PER_WEEK
               then ebind (day_link_constraint self vars i j (midnight b) (midnight b + Timedelta_hours 23)) (\<lambda>c.
                      Inr ([c], Some (midnight b)))
               else Inr ([], seen)) = Inr lk"
    and r3: "(case lk of (c_link, last_seen_date') \<Rightarrow>
              ebind (if int i = int (M self) - 1
                     then ebind (dc_constraint self vars j dt) (\<lambda>c. Inr [c])
                     else Inr []) (\<lambda>c_dc.
              Inr ([c_past, c_rest, c_min] @ concat c_ot @ [c_day] @ c_link @ c_dc, last_seen_date')))
            = Inr (cs, seen')"
    unfolding ebind_eq_Inr by blast
  obtain c_link s where lk: "lk = (c_link, s)" by (cases lk)
  from r3 have "ebind (if int i = int (M self) - 1
                     then ebind (dc_constraint self vars j dt) (\<lambda>c. Inr [c])
                     else Inr []) (\<lambda>c_dc.
              Inr ([c_past, c_rest, c_min] @ concat c_ot @ [c_day] @ c_link @ c_dc, s))
            = Inr (cs, seen')"
    unfolding lk prod.case .
  then obtain c_dc where 5: "(if int i = int (M self) - 1
               then ebind (dc_constraint self vars j dt) (\<lambda>c. Inr [c])
               else Inr []) = Inr c_dc"
    and 6: "Inr ([c_past, c_rest, c_min] @ concat c_ot @ [c_day] @ c_link @ c_dc, s) = (Inr (cs, seen') :: py_error + constraints \<times> timestamp option)"
    unfolding ebind_eq_Inr by blast
  from 6 have 7: "cs = [c_past, c_rest, c_min] @ concat c_ot @ [c_day] @ c_link @ c_dc" and s: "s = seen'"
    by simp_all
  from 4 lk s have 8: "(if Some (midnight b) \<noteq> seen \<and> length (unique bds) > MAX_DAYS_PER_WEEK
         then (\<exists>c. day_link_constraint self vars i j (midnight b) (midnight b + Timedelta_hours 23) = Inr c
                  \<and> c_link = [c]) \<and> seen' = Some (midnight b)
         else c_link = [] \<and> seen' = seen)"
    by (auto simp: ebind_eq_Inr split: if_splits)
  from 5 have 9: "(if int i = int (M self) - 1
         then (\<exists>c. dc_constraint self vars j dt = Inr c \<and> c_dc = [c])
         else c_dc = [])"
    by (auto simp: ebind_eq_Inr split: if_splits)
  from 1 2 3 7 8 9 show ?thesis by blast
qed

lemma get_subset_dts_Inr:
  "get_subset_dts self lo hi ml = Inr w \<Longrightarrow>
   w = filter (\<lambda>d. lo \<le> d \<and> d \<le> hi) (map fst (demand_dict self))"
  by (auto simp: get_subset_dts_def Let_def split: option.splits if_splits)

lemma emap_var_get_Inr: "emap (\<lambda>p. var_get vars (f p)) ps = Inr vs \<Longrightarrow> vs = map f ps"
proof (induction ps arbitrary: vs)
  case Nil
  then show ?case by simp
next
  case (Cons p ps)
  then show ?case by (auto simp: ebind_eq_Inr var_get_def split: if_splits)
qed

lemma var_get_Inr: "var_get vars v = Inr w \<Longrightarrow> w = v"
  by (auto simp: var_get_def split: if_splits)

lemma past_constraint_Inr:
  assumes "past_constraint self vars i j dt bs = Inr c"
  shows "c = (past i j, Le (lvar (X i dt))
            (lsum (map lvar (map (XStart i)
               (filter (\<lambda>d. max bs (dt - Timedelta_hours (MAX_SHIFT_HOURS - 1)) \<le> d \<and> d \<le> dt)
                  (map fst (demand_dict self)))))))"
  using assms
  by (auto simp: past_constraint_def ebind_eq_Inr dest!: get_subset_dts_Inr emap_var_get_Inr var_get_Inr)

lemma rest_window_Inr:
  "rest_window self dt = Inr w \<Longrightarrow>
   w = filter (\<lambda>d. dt + Timedelta_hours 1 \<le> d \<and> d \<le> dt + Timedelta_hours (MIN_SHIFT_HOURS + MIN_REST_HOURS - 1))
         (map fst (demand_dict self))"
  unfolding rest_window_def by (rule get_subset_dts_Inr)

lemma rest_constraint_Inr:
  assumes "rest_constraint vars i j dt rest_dts = Inr c"
  shows "c = (rest i j, Le (lsum (map lvar (map (XStart i) rest_dts)))
             (lscale (of_nat (length rest_dts)) (ladd (lconst 1) (lscale (- 1) (lvar (XStart i dt))))))"
  using assms
  by (auto simp: rest_constraint_def ebind_eq_Inr dest!: emap_var_get_Inr var_get_Inr)


lemma min_shift_constraint_Inr:
  assumes "min_shift_constraint vars i j dt shift_dts = Inr c"
  shows "c = (min_shift i j, Ge (lsum (map lvar (map (X i) shift_dts)))
             (lscale (of_nat (length shift_dts)) (lvar (XStart i dt))))"
  using assms
  by (auto simp: min_shift_constraint_def ebind_eq_Inr dest!: emap_var_get_Inr var_get_Inr)



lemma overtime_constraints_Inr:
  assumes "overtime_constraints vars i j dt extra (k, odt) = Inr cs"
  shows "\<exists>more. cs = [(consecutive i j k, Ge (ladd (lconst 1) (lvar (X i (odt + Timedelta_hours (- 1)))))
                                          (ladd (lvar (XStart i dt)) (lvar (X i odt)))),
                      (ot i j k, Ge (ladd (lconst 1) (lvar (XOt i odt)))
                                    (ladd (lvar (XStart i dt)) (lvar (X i odt))))] @ more
           \<and> (\<forall>(n, c) \<in> set more. n = rest_o i j k)"
  using assms
  by (auto simp: overtime_constraints_def ebind_eq_Inr split: if_splits dest!: var_get_Inr)

lemma max_per_day_constraint_Inr:
  "max_per_day_constraint self vars i j bs eod = Inr c \<Longrightarrow> fst c = max_per_day i j"
  by (auto simp: max_per_day_constraint_def ebind_eq_Inr)

lemma dc_constraint_Inr:
  "dc_constraint self vars j dt = Inr c \<Longrightarrow> fst c = dc j"
  by (auto simp: dc_constraint_def ebind_eq_Inr)

lemma day_link_constraint_Inr:
  "day_link_constraint self vars i j bs eod = Inr c \<Longrightarrow> fst c = day_link i j"
  by (auto simp: day_link_constraint_def ebind_eq_Inr)

lemma slot_loop_Cons_Inr:
  "slot_loop body s (x # xs) = Inr cs \<longleftrightarrow>
   (\<exists>cs1 s1 more. body s x = Inr (cs1, s1) \<and> slot_loop body s1 xs = Inr more \<and> cs = cs1 @ more)"
  by (auto simp: ebind_eq_Inr)

lemma slot_loop_mem:
  "slot_loop body s xs = Inr cs \<Longrightarrow> c \<in> set cs \<Longrightarrow>
   \<exists>s' x cs' s''. x \<in> set xs \<and> body s' x = Inr (cs', s'') \<and> c \<in> set cs'"
proof (induction xs arbitrary: s cs)
  case Nil
  then show ?case by simp
next
  case (Cons x xs)
  from Cons.prems(1) obtain cs1 s1 more where b: "body s x = Inr (cs1, s1)"
    and l: "slot_loop body s1 xs = Inr more" and eq: "cs = cs1 @ more"
    unfolding slot_loop_Cons_Inr by blast
  from Cons.prems(2) eq consider "c \<in> set cs1" | "c \<in> set more" by auto
  then show ?case
  proof cases
    case 1
    with b show ?thesis by (meson list.set_intros(1))
  next
    case 2
    from Cons.IH [OF l 2] show ?thesis by (meson list.set_intros(2))
  qed
qed

lemma slot_loop_each:
  "slot_loop body s xs = Inr cs \<Longrightarrow> x \<in> set xs \<Longrightarrow>
   \<exists>s' cs' s''. body s' x = Inr (cs', s'') \<and> set cs' \<subseteq> set cs"
proof (induction xs arbitrary: s cs)
  case Nil
  then show ?case by simp
next
  case (Cons y xs)
  from Cons.prems(1) obtain cs1 s1 more where b: "body s y = Inr (cs1, s1)"
    and l: "slot_loop body s1 xs = Inr more" and eq: "cs = cs1 @ more"
    unfolding slot_loop_Cons_Inr by blast
  show ?case
  proof (cases "x = y")
    case True
    with b eq show ?thesis by (intro exI [of _ s] exI [of _ cs1] exI [of _ s1]) simp
  next
    case False
    with Cons.prems(2) have "x \<in> set xs" by simp
    from Cons.IH [OF l this] obtain s' cs' s'' where "body s' x = Inr (cs', s'')" "set cs' \<subseteq> set more"
      by blast
    then show ?thesis using eq by (intro exI [of _ s'] exI [of _ cs'] exI [of _ s'']) auto
  qed
qed

lemma add_constraints_Inr:
  assumes "add_constraints h self vars = Inr cs"
  shows "\<exists>css. cs = concat css \<and>
    list_all2 (\<lambda>i c. \<exists>a w. slot_loop (slot_constraints h self vars i) None
                              (enumerate 0 (map fst (demand_dict self))) = Inr a
                     \<and> week_constraints h self vars i = Inr w \<and> c = a @ w) [0..<M self] css"
proof -
  from assms obtain css where e: "emap (\<lambda>i.
              ebind (slot_loop (slot_constraints h self vars i) None
                       (enumerate 0 (map fst (demand_dict self)))) (\<lambda>cs.
              ebind (week_constraints h self vars i) (\<lambda>ws.
              Inr (cs @ ws)))) [0..<M self] = Inr css" and c: "cs = concat css"
    by (auto simp: add_constraints_def ebind_eq_Inr)
  have "list_all2 (\<lambda>i c. \<exists>a w. slot_loop (slot_constraints h self vars i) None
                              (enumerate 0 (map fst (demand_dict self))) = Inr a
                     \<and> week_constraints h self vars i = Inr w \<and> c = a @ w) [0..<M self] css"
    using emap_Inr_D [OF e] by (rule list_all2_mono) (auto simp: ebind_eq_Inr)
  with c show ?thesis by blast
qed

text \<open>The constraints of staff \<open>i\<close> at a slot are all in the list.\<close>

lemma add_constraints_slot:
  assumes cons: "add_constraints h self vars = Inr cs" and i: "i < M self"
    and j: "j < length (demand_dict self)"
  shows "\<exists>seen cs' seen'. slot_constraints h self vars i seen (j, map fst (demand_dict self) ! j) = Inr (cs', seen')
          \<and> set cs' \<subseteq> set cs"
proof -
  from add_constraints_Inr [OF cons] obtain css where c: "cs = concat css"
    and l: "list_all2 (\<lambda>i c. \<exists>a w. slot_loop (slot_constraints h self vars i) None
                              (enumerate 0 (map fst (demand_dict self))) = Inr a
                     \<and> week_constraints h self vars i = Inr w \<and> c = a @ w) [0..<M self] css"
    by blast
  have "i \<in> set [0..<M self]" using i by simp
  from list_all2_nthD1 [OF l this] obtain ci a w where ci: "ci \<in> set css"
    and a: "slot_loop (slot_constraints h self vars i) None
                              (enumerate 0 (map fst (demand_dict self))) = Inr a"
    and eq: "ci = a @ w" by blast
  have "(j, map fst (demand_dict self) ! j) \<in> set (enumerate 0 (map fst (demand_dict self)))"
    using j by (simp add: in_set_enumerate_eq)
  from slot_loop_each [OF a this] obtain seen cs' seen'
    where s: "slot_constraints h self vars i seen (j, map fst (demand_dict self) ! j) = Inr (cs', seen')"
      and sub: "set cs' \<subseteq> set a" by blast
  have "set a \<subseteq> set ci" using eq by simp
  moreover have "set ci \<subseteq> set (concat css)" using ci by auto
  ultimately have "set cs' \<subseteq> set cs" using sub c by blast
  with s show ?thesis by blast
qed

text \<open>And every constraint of the list comes from a slot or from the weekly pass.\<close>

lemma add_constraints_cases:
  assumes cons: "add_constraints h self vars = Inr cs" and mem: "c \<in> set cs"
  shows "(\<exists>i seen jdt cs' seen'. i < M self \<and> slot_constraints h self vars i seen jdt = Inr (cs', seen') \<and> c \<in> set cs')
       \<or> (\<exists>i w. i < M self \<and> week_constraints h self vars i = Inr w \<and> c \<in> set w)"
proof -
  from add_constraints_Inr [OF cons] obtain css where c: "cs = concat css"
    and l: "list_all2 (\<lambda>i c. \<exists>a w. slot_loop (slot_constraints h self vars i) None
                              (enumerate 0 (map fst (demand_dict self))) = Inr a
                     \<and> week_constraints h self vars i = Inr w \<and> c = a @ w) [0..<M self] css"
    by blast
  from mem c obtain ci where ci: "ci \<in> set css" "c \<in> set ci" by auto
  from list_all2_nthD2 [OF l ci(1)] obtain i a w where i: "i < M self"
    and a: "slot_loop (slot_constraints h self vars i) None
                              (enumerate 0 (map fst (demand_dict self))) = Inr a"
    and w: "week_constraints h self vars i = Inr w" and eq: "ci = a @ w" by auto
  from ci(2) eq consider "c \<in> set a" | "c \<in> set w" by auto
  then show ?thesis
  proof cases
    case 1
    from slot_loop_mem [OF a 1] obtain seen jdt cs' seen'
      where "slot_constraints h self vars i seen jdt = Inr (cs', seen')" "c \<in> set cs'" by blast
    with i show ?thesis by blast
  next
    case 2
    with i w show ?thesis by blast
  qed
qed

section \<open>Day-worked variables and constraints\<close>

lemma horizon_days_eq: "col_bus_day h self = Inr bds \<Longrightarrow> horizon_days h self = length (unique bds)"
  by (auto simp: col_bus_day_def horizon_days_def split: option.splits)

lemma slot_constraints_names:
  assumes s: "slot_constraints h self vars i seen (j, dt) = Inr (cs, seen')"
    and short: "horizon_days h self \<le> MAX_DAYS_PER_WEEK"
    and mem: "(n, c) \<in> set cs"
  shows "\<not> is_day_rule n"
proof -
  from slot_constraints_Inr [OF s] obtain bds b c_past rest_dts c_rest shift_dts c_min pot extra c_ot c_day c_link c_dc
    where bds: "col_bus_day h self = Inr bds"
      and p: "past_constraint self vars i j dt (midnight b) = Inr c_past"
      and r: "rest_constraint vars i j dt rest_dts = Inr c_rest"
      and m: "min_shift_constraint vars i j dt shift_dts = Inr c_min"
      and o: "emap (overtime_constraints vars i j dt extra) (enumerate 0 pot) = Inr c_ot"
      and d: "max_per_day_constraint self vars i j (midnight b) (midnight b + Timedelta_hours 23) = Inr c_day"
      and lk: "(if Some (midnight b) \<noteq> seen \<and> length (unique bds) > MAX_DAYS_PER_WEEK
         then (\<exists>c. day_link_constraint self vars i j (midnight b) (midnight b + Timedelta_hours 23) = Inr c
                  \<and> c_link = [c]) \<and> seen' = Some (midnight b)
         else c_link = [] \<and> seen' = seen)"
      and dc: "(if int i = int (M self) - 1
         then (\<exists>c. dc_constraint self vars j dt = Inr c \<and> c_dc = [c])
         else c_dc = [])"
      and eq: "cs = [c_past, c_rest, c_min] @ concat c_ot @ [c_day] @ c_link @ c_dc"
    by blast
  have "c_link = []" using lk short horizon_days_eq [OF bds] by (auto split: if_splits)
  with mem eq consider "(n, c) = c_past" | "(n, c) = c_rest" | "(n, c) = c_min"
    | l where "l \<in> set c_ot" "(n, c) \<in> set l" | "(n, c) = c_day" | "(n, c) \<in> set c_dc"
    by auto
  then show ?thesis
  proof cases
    case 1
    then show ?thesis using past_constraint_Inr [OF p] by (simp add: is_day_rule_def)
  next
    case 2
    then show ?thesis using rest_constraint_Inr [OF r] by (simp add: is_day_rule_def)
  next
    case 3
    then show ?thesis using min_shift_constraint_Inr [OF m] by (simp add: is_day_rule_def)
  next
    case 4
    from list_all2_nthD2 [OF emap_Inr_D [OF o] 4(1)] obtain k odt
      where "overtime_constraints vars i j dt extra (k, odt) = Inr l" by auto
    from overtime_constraints_Inr [OF this] 4(2) have "n = consecutive i j k \<or> n = ot i j k \<or> n = rest_o i j k"
      by auto
    then show ?thesis by (auto simp: is_day_rule_def)
  next
    case 5
    then show ?thesis using max_per_day_constraint_Inr [OF d] by (auto simp: is_day_rule_def)
  next
    case 6
    then show ?thesis using dc dc_constraint_Inr [of self vars j dt] by (auto simp: is_day_rule_def split: if_splits)
  qed
qed

lemma week_constraints_short:
  assumes w: "week_constraints h self vars i = Inr ws"
    and short: "horizon_days h self \<le> MAX_DAYS_PER_WEEK"
  shows "ws = []"
proof -
  from w obtain wks cs where e: "emap (\<lambda>w.
              ebind (col_week h self) (\<lambda>wks'.
              ebind (col_bus_day h self) (\<lambda>bds.
              let week_days = unique (map snd (filter (\<lambda>(wk, b). wk = w) (zip wks' bds)))
              in if length week_days > MAX_DAYS_PER_WEEK
                 then ebind (emap (\<lambda>w_d. var_get vars (XDay i (midnight w_d))) week_days) (\<lambda>ds.
                        Inr [(max_per_week i w,
                              Le (lsum (map lvar ds)) (lconst (of_nat MAX_DAYS_PER_WEEK)))])
                 else Inr []))) (unique wks) = Inr cs" and ws: "ws = concat cs"
    by (auto simp: week_constraints_def ebind_eq_Inr)
  have "c = []" if "c \<in> set cs" for c
  proof -
    from list_all2_nthD2 [OF emap_Inr_D [OF e] that] obtain w wks' bds
      where bds: "col_bus_day h self = Inr bds"
        and r: "(let week_days = unique (map snd (filter (\<lambda>(wk, b). wk = w) (zip wks' bds)))
              in if length week_days > MAX_DAYS_PER_WEEK
                 then ebind (emap (\<lambda>w_d. var_get vars (XDay i (midnight w_d))) week_days) (\<lambda>ds.
                        Inr [(max_per_week i w,
                              Le (lsum (map lvar ds)) (lconst (of_nat MAX_DAYS_PER_WEEK)))])
                 else Inr []) = Inr c"
      by (auto simp: ebind_eq_Inr)
    have "set (map snd (filter (\<lambda>(wk, b). wk = w) (zip wks' bds))) \<subseteq> set bds"
      by (auto dest: set_zip_rightD)
    then have "card (set (map snd (filter (\<lambda>(wk, b). wk = w) (zip wks' bds)))) \<le> card (set bds)"
      by (intro card_mono) simp_all
    then have "length (unique (map snd (filter (\<lambda>(wk, b). wk = w) (zip wks' bds)))) \<le> MAX_DAYS_PER_WEEK"
      using short horizon_days_eq [OF bds] by (simp only: length_unique)
    with r show ?thesis by (simp add: Let_def)
  qed
  then show ?thesis using ws by (induction cs arbitrary: ws) auto
qed

text \<open>
  C7 (amended). A day-worked variable is created for every staff member and every
  business day of the demand table, whatever the length of the horizon. The
  day-worked linkage and the weekly day-off constraints are added only when the
  horizon has more business days than MAX_DAYS_PER_WEEK: with at most that many, no
  such constraint is in the model.
\<close>

theorem day_rules_only_for_long_horizons:
  assumes init: "Model_init parse h0 r staff = Inr (h, self)"
    and vars: "add_variables h self = Inr vars"
    and cons: "add_constraints h self vars = Inr cs"
  shows "(\<forall>i dt. i < M self \<and> Stamp dt \<in> set (date_time (h r))
            \<longrightarrow> (XDay i (midnight (date_of dt)), BoolVar) \<in> set vars)
       \<and> (horizon_days h self \<le> MAX_DAYS_PER_WEEK \<longrightarrow> (\<forall>(n, c) \<in> set cs. \<not> is_day_rule n))"
proof -
  have a: "(XDay i (midnight (date_of dt)), BoolVar) \<in> set vars"
    if "i < M self" "Stamp dt \<in> set (date_time (h r))" for i dt
    using declared_slot(4) [OF init vars that] .
  have b: "\<not> is_day_rule n" if short: "horizon_days h self \<le> MAX_DAYS_PER_WEEK" and mem: "(n, c) \<in> set cs" for n c
  proof -
    from add_constraints_cases [OF cons mem]
    consider i seen jdt cs' seen' where "slot_constraints h self vars i seen jdt = Inr (cs', seen')" "(n, c) \<in> set cs'"
      | i w where "week_constraints h self vars i = Inr w" "(n, c) \<in> set w"
      by blast
    then show ?thesis
    proof cases
      case 1
      obtain j dt where "jdt = (j, dt)" by (cases jdt)
      with 1 show ?thesis using slot_constraints_names [OF _ short] by blast
    next
      case 2
      with week_constraints_short [OF 2(1) short] show ?thesis by simp
    qed
  qed
  from a b show ?thesis by blast
qed

theorem day_rules_only_for_long_horizons_witness:
  "Model_init ex_parse ex_heap 0 ex_staff = Inr (ex_heap', ex_model)
   \<and> add_variables ex_heap' ex_model = Inr ex_vars
   \<and> add_constraints ex_heap' ex_model ex_vars = Inr ex_cons
   \<and> 0 < M ex_model \<and> Stamp 3600 \<in> set (date_time (ex_heap' 0))
   \<and> (XDay 0 (midnight (date_of 3600)), BoolVar) \<in> set ex_vars
   \<and> horizon_days ex_heap' ex_model \<le> MAX_DAYS_PER_WEEK
   \<and> (dc 1, Ge (Lin [(1, X 0 3600), (1, Y1 3600), (1, Y2 3600)] 0) (Lin [] 0)) \<in> set ex_cons
   \<and> \<not> is_day_rule (dc 1)"
proof -
  have hd: "horizon_days ex_heap' ex_model \<le> MAX_DAYS_PER_WEEK"
    by (simp add: horizon_days_def ex_heap'_def ex_model_def unique_def MAX_DAYS_PER_WEEK_def)
  have mem: "(dc 1, Ge (Lin [(1, X 0 3600), (1, Y1 3600), (1, Y2 3600)] 0) (Lin [] 0)) \<in> set ex_cons"
    by (simp add: ex_cons_def)
  from day_rules_only_for_long_horizons [OF ex_init ex_add_variables ex_add_constraints]
  have "(XDay 0 (midnight (date_of 3600)), BoolVar) \<in> set ex_vars" and "\<not> is_day_rule (dc 1)"
    using ex_M ex_slot1 hd mem by blast+
  with ex_init ex_add_variables ex_add_constraints ex_M ex_slot1 hd mem show ?thesis by blast
qed

theorem day_variables_on_short_horizon_counterexample:
  "Model_init ex_parse ex_heap 0 ex_staff = Inr (ex_heap', ex_model)
   \<and> add_variables ex_heap' ex_model = Inr ex_vars
   \<and> horizon_days ex_heap' ex_model = 1
   \<and> horizon_days ex_heap' ex_model \<le> MAX_DAYS_PER_WEEK
   \<and> (XDay 0 0, \<lparr>lb = 0, ub = 1, integer = True\<rparr>) \<in> set ex_vars"
proof -
  have "horizon_days ex_heap' ex_model = 1"
    by (simp add: horizon_days_def ex_heap'_def ex_model_def unique_def)
  moreover have "(XDay 0 0, \<lparr>lb = 0, ub = 1, integer = True\<rparr>) \<in> set ex_vars"
    by (simp add: ex_vars_def)
  ultimately show ?thesis using ex_init ex_add_variables by (simp add: MAX_DAYS_PER_WEEK_def)
qed

section \<open>The result for a run without a solution\<close>

lemma to_dict_keys_subset: "set (map fst (to_dict ts ds)) \<subseteq> set ts"
proof -
  have "fst ` set (to_dict ts ds) = fst ` set (zip ts ds)"
    using keys_fold_update [of "zip ts ds" "[]"] by (simp add: to_dict_def)
  then show ?thesis by (auto dest: set_zip_leftD)
qed

lemma var_get_declared: "v \<in> fst ` set vars \<Longrightarrow> var_get vars v = Inr v"
  by (simp add: var_get_def)

text \<open>Every key of the demand dictionary is a slot of the table.\<close>

lemma key_is_slot:
  assumes init: "Model_init parse h0 r staff = Inr (h, self)"
    and k: "dt \<in> set (map fst (demand_dict self))"
  shows "Stamp dt \<in> set (date_time (h r))"
proof -
  from init obtain ts where "date_time (h r) = map Stamp ts"
    and "demand_dict self = to_dict ts (demand (h0 r))"
    by (rule Model_init_cols)
  then show ?thesis using k to_dict_keys_subset [of ts "demand (h0 r)"] by auto
qed

lemma solution_sum_eq:
  assumes "\<And>i dt. i < M self \<Longrightarrow> dt \<in> set (map fst (demand_dict self)) \<Longrightarrow> d i dt \<in> fst ` set vars"
  shows "solution_sum self vars sol d =
         Inr (sum_list (concat (map (\<lambda>i. map (\<lambda>dt. sol (d i dt)) (map fst (demand_dict self))) [0..<M self])))"
proof -
  have inner: "emap (\<lambda>dt. ebind (var_get vars (d i dt)) (\<lambda>v. Inr (sol v))) (map fst (demand_dict self))
        = Inr (map (\<lambda>dt. sol (d i dt)) (map fst (demand_dict self)))" if "i \<in> set [0..<M self]" for i
    using that assms by (intro emap_all_Inr) (simp add: var_get_declared)
  have "emap (\<lambda>i. emap (\<lambda>dt. ebind (var_get vars (d i dt)) (\<lambda>v. Inr (sol v)))
                        (map fst (demand_dict self))) [0..<M self]
        = Inr (map (\<lambda>i. map (\<lambda>dt. sol (d i dt)) (map fst (demand_dict self))) [0..<M self])"
    by (rule emap_all_Inr) (rule inner)
  then show ?thesis by (simp add: solution_sum_def)
qed

lemma sum_list_all_zero: "(\<And>q. q \<in> set xs \<Longrightarrow> q = 0) \<Longrightarrow> sum_list xs = (0 :: rat)"
  by (induction xs) auto

lemma py_round_0 [simp]: "py_round n 0 = 0"
  by (simp add: py_round_def)

text \<open>
  C1. When the status is neither OPTIMAL nor FEASIBLE, solve returns without raising:
  the shift list is empty, WDC and the total cost are 0, WOR is 0 when the solver
  reports 0 for every variable, and the field solver_status holds the text
  ``feasible'', whatever the status was.
\<close>

theorem unsolved_run_reported_as_feasible:
  assumes init: "Model_init parse h0 r staff = Inr (h, self)"
    and vars: "add_variables h self = Inr vars"
    and st: "status \<noteq> OPTIMAL" "status \<noteq> FEASIBLE"
  shows "\<exists>m. solve self vars status sol = Inr m \<and> shifts m = [] \<and> WDC m = 0 \<and> total_cost m = 0
           \<and> solver_status m = ''feasible'' \<and> ((\<forall>v. sol v = 0) \<longrightarrow> WOR m = 0)"
proof -
  have x: "X i dt \<in> fst ` set vars" if "i < M self" "dt \<in> set (map fst (demand_dict self))" for i dt
    using declared_slot(2) [OF init vars that(1) key_is_slot [OF init that(2)]] by force
  have o: "XOt i dt \<in> fst ` set vars" if "i < M self" "dt \<in> set (map fst (demand_dict self))" for i dt
    using declared_slot(3) [OF init vars that(1) key_is_slot [OF init that(2)]] by force
  let ?sh = "sum_list (concat (map (\<lambda>i. map (\<lambda>dt. sol (X i dt)) (map fst (demand_dict self))) [0..<M self]))"
  let ?ot = "sum_list (concat (map (\<lambda>i. map (\<lambda>dt. sol (XOt i dt)) (map fst (demand_dict self))) [0..<M self]))"
  have sx: "solution_sum self vars sol X = Inr ?sh" using x by (rule solution_sum_eq)
  have so: "solution_sum self vars sol XOt = Inr ?ot" using o by (rule solution_sum_eq)
  have z: "?sh = 0" if "\<forall>v. sol v = 0"
  proof -
    show ?thesis by (rule sum_list_all_zero) (use that in \<open>auto split: if_splits\<close>)
  qed
  show ?thesis using st sx so z by (simp add: solve_def)
qed

theorem unsolved_run_reported_as_feasible_witness:
  "Model_init ex_parse ex_heap 0 ex_staff = Inr (ex_heap', ex_model)
   \<and> add_variables ex_heap' ex_model = Inr ex_vars
   \<and> INFEASIBLE \<noteq> OPTIMAL \<and> INFEASIBLE \<noteq> FEASIBLE
   \<and> (\<exists>m. solve ex_model ex_vars INFEASIBLE zero_sol = Inr m \<and> shifts m = [] \<and> WDC m = 0
           \<and> total_cost m = 0 \<and> solver_status m = ''feasible''
           \<and> ((\<forall>v. zero_sol v = 0) \<longrightarrow> WOR m = 0))"
  using unsolved_run_reported_as_feasible [OF ex_init ex_add_variables, of INFEASIBLE zero_sol]
    ex_init ex_add_variables by simp

section \<open>The demand coverage computed by solve\<close>



















section \<open>Models of a contiguous hourly demand table\<close>

subsection \<open>The hourly grid\<close>

lemma length_grid [simp]: "length (grid t0 n) = n"
  by (simp add: grid_def)

lemma grid_nth: "j < n \<Longrightarrow> grid t0 n ! j = t0 + 3600 * int j"
  by (simp add: grid_def Timedelta_hours_def)

lemma grid_mem_iff: "d \<in> set (grid t0 n) \<longleftrightarrow> (\<exists>k<n. d = t0 + 3600 * int k)"
  by (auto simp: grid_def Timedelta_hours_def)

lemma distinct_grid: "distinct (grid t0 n)"
  by (simp add: grid_def distinct_map inj_on_def Timedelta_hours_def)


text \<open>Two slots of the grid are a whole number of hours apart, and the slots between are there.\<close>

lemma grid_next:
  assumes "d \<in> set (grid t0 n)" and "e \<in> set (grid t0 n)" and "d < e"
  shows "d + 3600 \<le> e" and "d + 3600 \<in> set (grid t0 n)" and "e - 3600 \<in> set (grid t0 n)"
proof -
  from assms obtain k l where k: "k < n" "d = t0 + 3600 * int k" and l: "l < n" "e = t0 + 3600 * int l"
    by (auto simp: grid_mem_iff)
  with assms(3) have kl: "k < l" by simp
  then show "d + 3600 \<le> e" using k l by simp
  have "Suc k < n" using kl l by simp
  moreover have "d + 3600 = t0 + 3600 * int (Suc k)" using k by simp
  ultimately show "d + 3600 \<in> set (grid t0 n)" unfolding grid_mem_iff by blast
  have "l - 1 < n" using l by simp
  moreover have "e - 3600 = t0 + 3600 * int (l - 1)" using l kl by (simp add: of_nat_diff)
  ultimately show "e - 3600 \<in> set (grid t0 n)" unfolding grid_mem_iff by blast
qed


lemma hourly_table:
  assumes init: "Model_init parse h0 r staff = Inr (h, self)"
    and tab: "to_datetime parse (date_time (h0 r)) = Inr (grid t0 n)"
    and len: "length (demand (h0 r)) = n"
  shows "map fst (demand_dict self) = grid t0 n"
    and "col_bus_day h self = Inr (map date_of (grid t0 n))"
    and "col_week h self = Inr (week_col (grid t0 n))"
    and "date_time (h r) = map Stamp (grid t0 n)"
    and "length (demand_dict self) = n"
proof -
  from init obtain ts where ts: "to_datetime parse (date_time (h0 r)) = Inr ts"
    and c: "date_time (h r) = map Stamp ts" "col_bus_day h self = Inr (map date_of ts)"
      "col_week h self = Inr (week_col ts)" "demand_dict self = to_dict ts (demand (h0 r))"
    by (rule Model_init_cols)
  from ts tab have eq: "ts = grid t0 n" by simp
  have dd: "demand_dict self = zip (grid t0 n) (demand (h0 r))"
    using c(4) eq len to_dict_distinct [OF distinct_grid, of "demand (h0 r)" t0 n] by simp
  show "map fst (demand_dict self) = grid t0 n" using dd len by simp
  show "length (demand_dict self) = n" using dd len by simp
  show "col_bus_day h self = Inr (map date_of (grid t0 n))"
    and "col_week h self = Inr (week_col (grid t0 n))"
    and "date_time (h r) = map Stamp (grid t0 n)"
    using c eq by simp_all
qed

subsection \<open>The value of a linear expression\<close>

lemma lin_value_lvar [simp]: "lin_value asg (lvar v) = asg v"
  by (simp add: lvar_def)

lemma lin_value_lconst [simp]: "lin_value asg (lconst c) = c"
  by (simp add: lconst_def)

lemma lin_value_ladd [simp]: "lin_value asg (ladd a b) = lin_value asg a + lin_value asg b"
  by (cases a; cases b) simp

lemma lin_value_lscale [simp]: "lin_value asg (lscale k a) = k * lin_value asg a"
proof (cases a)
  case (Lin ts c)
  have "sum_list (map (\<lambda>(q, v). q * asg v) (map (\<lambda>(q, v). (k * q, v)) ts))
        = k * sum_list (map (\<lambda>(q, v). q * asg v) ts)"
    by (induction ts) (auto simp: algebra_simps)
  then show ?thesis using Lin by (simp add: algebra_simps)
qed

lemma lin_value_lsum [simp]: "lin_value asg (lsum es) = sum_list (map (lin_value asg) es)"
  by (induction es) (simp_all add: lsum_def)

lemma lin_value_var_sum: "lin_value asg (lsum (map lvar (map f ds))) = sum_list (map (\<lambda>d. asg (f d)) ds)"
  by (simp add: comp_def)

lemma satisfiesD: "satisfies asg cs \<Longrightarrow> (n, c) \<in> set cs \<Longrightarrow> holds asg c"
  by (auto simp: satisfies_def list_all_iff)

lemma member_le_sum_list_rat:
  "(\<And>y. y \<in> set xs \<Longrightarrow> 0 \<le> y) \<Longrightarrow> x \<in> set xs \<Longrightarrow> x \<le> (sum_list xs :: rat)"
proof (induction xs)
  case Nil
  then show ?case by simp
next
  case (Cons a xs)
  have nn: "0 \<le> sum_list xs" using Cons.prems(1) by (intro sum_list_nonneg) simp
  show ?case
  proof (cases "x = a")
    case True
    then show ?thesis using nn by simp
  next
    case False
    then have "x \<le> sum_list xs" using Cons by simp
    moreover have "0 \<le> a" using Cons.prems(1) by simp
    ultimately show ?thesis by simp
  qed
qed



lemma is_int_0_1: "is_int q \<Longrightarrow> 0 \<le> q \<Longrightarrow> q \<le> 1 \<Longrightarrow> q = 0 \<or> q = 1"
proof -
  assume i: "is_int q" and b: "0 \<le> q" "q \<le> 1"
  define z where "z = \<lfloor>q\<rfloor>"
  from i have q: "q = of_int z" unfolding is_int_def z_def by (rule sym)
  with b have "0 \<le> z" "z \<le> 1" by simp_all
  then have "z = 0 \<or> z = 1" by linarith
  then show ?thesis using q by auto
qed

text \<open>The values of the start and work variables of a slot are 0 or 1.\<close>

lemma binary_values:
  assumes init: "Model_init parse h0 r staff = Inr (h, self)"
    and vars: "add_variables h self = Inr vars"
    and bounds: "within_bounds asg vars"
    and i: "i < M self" and dt: "Stamp dt \<in> set (date_time (h r))"
  shows "asg (XStart i dt) = 0 \<or> asg (XStart i dt) = 1"
    and "asg (X i dt) = 0 \<or> asg (X i dt) = 1"
proof -
  from within_boundsD [OF bounds declared_slot(1) [OF init vars i dt]]
  have "0 \<le> asg (XStart i dt)" "asg (XStart i dt) \<le> 1" "is_int (asg (XStart i dt))"
    by (auto simp: x_start_var_eq split: if_splits)
  then show "asg (XStart i dt) = 0 \<or> asg (XStart i dt) = 1" by (intro is_int_0_1)
  from within_boundsD [OF bounds declared_slot(2) [OF init vars i dt]]
  have "0 \<le> asg (X i dt)" "asg (X i dt) \<le> 1" "is_int (asg (X i dt))"
    by (auto simp: BoolVar_def)
  then show "asg (X i dt) = 0 \<or> asg (X i dt) = 1" by (intro is_int_0_1)
qed

text \<open>A window of width \<open>L - 1\<close> hours holds at most \<open>L\<close> slots of an hourly grid.\<close>

lemma window_length:
  assumes w: "hi - lo \<le> 3600 * (L - 1)" and L: "1 \<le> L"
  shows "int (length (filter (\<lambda>d. lo \<le> d \<and> d \<le> hi) (grid t0 n))) \<le> L"
proof -
  let ?S = "{k. k < n \<and> lo \<le> t0 + 3600 * int k \<and> t0 + 3600 * int k \<le> hi}"
  have "length (filter (\<lambda>d. lo \<le> d \<and> d \<le> hi) (grid t0 n))
        = card {k. k < length (grid t0 n) \<and> lo \<le> grid t0 n ! k \<and> grid t0 n ! k \<le> hi}"
    by (rule length_filter_conv_card)
  also have "{k. k < length (grid t0 n) \<and> lo \<le> grid t0 n ! k \<and> grid t0 n ! k \<le> hi} = ?S"
    by (auto simp: grid_nth)
  finally have len: "length (filter (\<lambda>d. lo \<le> d \<and> d \<le> hi) (grid t0 n)) = card ?S" .
  have fin: "finite ?S" by simp
  show ?thesis
  proof (cases "?S = {}")
    case True
    show ?thesis unfolding len True using L by simp
  next
    case False
    define a where "a = Min ?S"
    have a: "a \<in> ?S" unfolding a_def using fin False by (rule Min_in)
    have "?S \<subseteq> {a..<a + nat L}"
    proof
      fix k assume k: "k \<in> ?S"
      then have "a \<le> k" unfolding a_def using fin by (intro Min_le) 
      moreover have "3600 * int k \<le> 3600 * int a + 3600 * (L - 1)" using k a w by simp
      then have "int k \<le> int a + (L - 1)" by simp
      then have "k < a + nat L" using L by linarith
      ultimately show "k \<in> {a..<a + nat L}" by simp
    qed
    then have "card ?S \<le> card {a..<a + nat L}" by (intro card_mono) simp_all
    then show ?thesis using len L by simp
  qed
qed

lemma get_subset_dts_grid:
  assumes keys: "map fst (demand_dict self) = grid t0 n"
    and w: "hi - lo \<le> 3600 * (L - 1)" and L: "1 \<le> L"
  shows "get_subset_dts self lo hi (Some L) = Inr (filter (\<lambda>d. lo \<le> d \<and> d \<le> hi) (grid t0 n))"
  using window_length [OF w L, of t0 n] keys by (simp add: get_subset_dts_def)

lemma get_subset_dts_None:
  "get_subset_dts self lo hi None = Inr (filter (\<lambda>d. lo \<le> d \<and> d \<le> hi) (map fst (demand_dict self)))"
  by (simp add: get_subset_dts_def)




section \<open>Rest between two shift starts\<close>

lemma slot_on_grid:
  assumes init: "Model_init parse h0 r staff = Inr (h, self)"
    and tab: "to_datetime parse (date_time (h0 r)) = Inr (grid t0 n)"
    and len: "length (demand (h0 r)) = n"
    and cons: "add_constraints h self vars = Inr cs"
    and i: "i < M self" and j: "j < n"
  shows "\<exists>seen cs' seen'. slot_constraints h self vars i seen (j, grid t0 n ! j) = Inr (cs', seen')
          \<and> set cs' \<subseteq> set cs"
  using add_constraints_slot [OF cons i, of j] j hourly_table(1,5) [OF init tab len] by simp

lemma grid_slot:
  assumes init: "Model_init parse h0 r staff = Inr (h, self)"
    and tab: "to_datetime parse (date_time (h0 r)) = Inr (grid t0 n)"
    and len: "length (demand (h0 r)) = n"
    and d: "d \<in> set (grid t0 n)"
  shows "Stamp d \<in> set (date_time (h r))"
  using hourly_table(4) [OF init tab len] d by simp

lemma rest_rule:
  assumes init: "Model_init parse h0 r staff = Inr (h, self)"
    and tab: "to_datetime parse (date_time (h0 r)) = Inr (grid t0 n)"
    and len: "length (demand (h0 r)) = n"
    and cons: "add_constraints h self vars = Inr cs"
    and i: "i < M self" and j: "j < n"
  shows "(rest i j,
          Le (lsum (map lvar (map (XStart i)
                (filter (\<lambda>d. grid t0 n ! j < d
                          \<and> d \<le> grid t0 n ! j + Timedelta_hours (MIN_SHIFT_HOURS + MIN_REST_HOURS - 1))
                   (grid t0 n)))))
             (lscale (of_nat (length
                (filter (\<lambda>d. grid t0 n ! j < d
                          \<and> d \<le> grid t0 n ! j + Timedelta_hours (MIN_SHIFT_HOURS + MIN_REST_HOURS - 1))
                   (grid t0 n))))
                (ladd (lconst 1) (lscale (- 1) (lvar (XStart i (grid t0 n ! j)))))))
         \<in> set cs"
proof -
  let ?dt = "grid t0 n ! j"
  from slot_on_grid [OF init tab len cons i j] obtain seen cs' seen'
    where s: "slot_constraints h self vars i seen (j, ?dt) = Inr (cs', seen')" and sub: "set cs' \<subseteq> set cs"
    by blast
  from slot_constraints_Inr [OF s] obtain rest_dts c_rest
    where w: "rest_window self ?dt = Inr rest_dts"
      and c: "rest_constraint vars i j ?dt rest_dts = Inr c_rest" and mem: "c_rest \<in> set cs'"
    by auto
  have dt: "?dt \<in> set (grid t0 n)" using j by simp
  have "rest_dts = filter (\<lambda>d. ?dt + Timedelta_hours 1 \<le> d
            \<and> d \<le> ?dt + Timedelta_hours (MIN_SHIFT_HOURS + MIN_REST_HOURS - 1)) (grid t0 n)"
    using rest_window_Inr [OF w] hourly_table(1) [OF init tab len] by simp
  also have "\<dots> = filter (\<lambda>d. ?dt < d
            \<and> d \<le> ?dt + Timedelta_hours (MIN_SHIFT_HOURS + MIN_REST_HOURS - 1)) (grid t0 n)"
    using grid_next(1) [OF dt] by (intro filter_cong) (auto simp: Timedelta_hours_def)
  finally have "rest_dts = filter (\<lambda>d. ?dt < d
            \<and> d \<le> ?dt + Timedelta_hours (MIN_SHIFT_HOURS + MIN_REST_HOURS - 1)) (grid t0 n)" .
  with rest_constraint_Inr [OF c] mem sub show ?thesis by auto
qed

lemma no_second_start:
  assumes init: "Model_init parse h0 r staff = Inr (h, self)"
    and tab: "to_datetime parse (date_time (h0 r)) = Inr (grid t0 n)"
    and len: "length (demand (h0 r)) = n"
    and vars: "add_variables h self = Inr vars"
    and cons: "add_constraints h self vars = Inr cs"
    and bounds: "within_bounds asg vars"
    and sat: "satisfies asg cs"
    and i: "i < M self" and j: "j < n"
    and start: "asg (XStart i (grid t0 n ! j)) = 1"
    and t': "t' \<in> set (grid t0 n)" "grid t0 n ! j < t'"
      "t' \<le> grid t0 n ! j + Timedelta_hours (MIN_SHIFT_HOURS + MIN_REST_HOURS - 1)"
  shows "asg (XStart i t') = 0"
proof -
  let ?t = "grid t0 n ! j"
  let ?W = "filter (\<lambda>d. ?t < d \<and> d \<le> ?t + Timedelta_hours (MIN_SHIFT_HOURS + MIN_REST_HOURS - 1)) (grid t0 n)"
  note rule = rest_rule [OF init tab len cons i j]
  have le: "sum_list (map (\<lambda>d. asg (XStart i d)) ?W) \<le> of_nat (length ?W) * (1 + - 1 * asg (XStart i ?t))"
    using satisfiesD [OF sat rule]
    unfolding holds.simps lin_value_var_sum lin_value_lscale lin_value_ladd lin_value_lconst lin_value_lvar
    by simp
  have nn: "0 \<le> y" if "y \<in> set (map (\<lambda>d. asg (XStart i d)) ?W)" for y
  proof -
    from that obtain d where "d \<in> set (grid t0 n)" "y = asg (XStart i d)" by auto
    then show ?thesis
      using binary_values(1) [OF init vars bounds i grid_slot [OF init tab len], of d] by auto
  qed
  from t' have "t' \<in> set ?W" by simp
  then have "asg (XStart i t') \<in> set (map (\<lambda>d. asg (XStart i d)) ?W)"
    by (simp only: set_map) (rule imageI)
  from member_le_sum_list_rat [OF nn this] le start have "asg (XStart i t') \<le> 0" by simp
  then show ?thesis
    using binary_values(1) [OF init vars bounds i grid_slot [OF init tab len t'(1)]] by auto
qed

text \<open>
  C6. In every assignment that is within the bounds of the variables and satisfies the
  constraints built for a contiguous hourly demand table, no member of staff has two
  shift starts less than MIN_SHIFT_HOURS + MIN_REST_HOURS hours apart: for every slot
  \<open>t\<close> the model holds the constraint that the sum of \<open>x_start\<close> over the slots in
  \<open>(t, t + MIN_SHIFT_HOURS + MIN_REST_HOURS - 1]\<close> is at most the number of those slots
  times \<open>1 - x_start[i][t]\<close>.
\<close>

theorem rest_between_shift_starts:
  assumes init: "Model_init parse h0 r staff = Inr (h, self)"
    and tab: "to_datetime parse (date_time (h0 r)) = Inr (grid t0 n)"
    and len: "length (demand (h0 r)) = n"
    and vars: "add_variables h self = Inr vars"
    and cons: "add_constraints h self vars = Inr cs"
    and bounds: "within_bounds asg vars"
    and sat: "satisfies asg cs"
    and i: "i < M self" and j: "j < n"
  shows "(rest i j,
          Le (lsum (map lvar (map (XStart i)
                (filter (\<lambda>d. grid t0 n ! j < d
                          \<and> d \<le> grid t0 n ! j + Timedelta_hours (MIN_SHIFT_HOURS + MIN_REST_HOURS - 1))
                   (grid t0 n)))))
             (lscale (of_nat (length
                (filter (\<lambda>d. grid t0 n ! j < d
                          \<and> d \<le> grid t0 n ! j + Timedelta_hours (MIN_SHIFT_HOURS + MIN_REST_HOURS - 1))
                   (grid t0 n))))
                (ladd (lconst 1) (lscale (- 1) (lvar (XStart i (grid t0 n ! j)))))))
         \<in> set cs
       \<and> (\<forall>t'. t' \<in> set (grid t0 n) \<and> grid t0 n ! j < t'
                \<and> t' - grid t0 n ! j < Timedelta_hours (MIN_SHIFT_HOURS + MIN_REST_HOURS)
              \<longrightarrow> \<not> (asg (XStart i (grid t0 n ! j)) = 1 \<and> asg (XStart i t') = 1))"
proof -
  let ?t = "grid t0 n ! j"
  note rule = rest_rule [OF init tab len cons i j]
  have no: "\<not> (asg (XStart i ?t) = 1 \<and> asg (XStart i t') = 1)"
    if t': "t' \<in> set (grid t0 n)" "?t < t'" "t' - ?t < Timedelta_hours (MIN_SHIFT_HOURS + MIN_REST_HOURS)" for t'
  proof
    assume both: "asg (XStart i ?t) = 1 \<and> asg (XStart i t') = 1"
    have "?t \<in> set (grid t0 n)" using j by simp
    with t'(1) obtain k l where kl: "?t = t0 + 3600 * int k" "t' = t0 + 3600 * int l"
      by (auto simp: grid_mem_iff)
    with t'(3) have "3600 * (int l - int k) < 3600 * 13"
      by (simp add: Timedelta_hours_def MIN_SHIFT_HOURS_def MIN_REST_HOURS_def)
    then have "int l - int k < 13" by (simp only: mult_less_cancel_left_pos zero_less_numeral)
    then have "3600 * (int l - int k) \<le> 3600 * 12" by simp
    with kl have "t' \<le> ?t + Timedelta_hours (MIN_SHIFT_HOURS + MIN_REST_HOURS - 1)"
      by (simp add: Timedelta_hours_def MIN_SHIFT_HOURS_def MIN_REST_HOURS_def)
    from no_second_start [OF init tab len vars cons bounds sat i j _ t'(1,2) this] both
    show False by simp
  qed
  from rule no show ?thesis by blast
qed

theorem rest_between_shift_starts_witness:
  "Model_init ex_parse ex_heap 0 ex_staff = Inr (ex_heap', ex_model)
   \<and> to_datetime ex_parse (date_time (ex_heap 0)) = Inr (grid 0 2)
   \<and> length (demand (ex_heap 0)) = 2
   \<and> add_variables ex_heap' ex_model = Inr ex_vars
   \<and> add_constraints ex_heap' ex_model ex_vars = Inr ex_cons
   \<and> within_bounds ex_sol ex_vars \<and> satisfies ex_sol ex_cons
   \<and> 0 < M ex_model \<and> (0 :: nat) < 2
   \<and> 3600 \<in> set (grid 0 2) \<and> grid 0 2 ! 0 < 3600
   \<and> 3600 - grid 0 2 ! 0 < Timedelta_hours (MIN_SHIFT_HOURS + MIN_REST_HOURS)
   \<and> ex_sol (XStart 0 (grid 0 2 ! 0)) = 1
   \<and> \<not> (ex_sol (XStart 0 (grid 0 2 ! 0)) = 1 \<and> ex_sol (XStart 0 3600) = 1)"
proof -
  have a: "3600 \<in> set (grid 0 2)" "grid 0 2 ! 0 < 3600"
    "3600 - grid 0 2 ! 0 < Timedelta_hours (MIN_SHIFT_HOURS + MIN_REST_HOURS)"
    by (simp_all add: ex_grid Timedelta_hours_def MIN_SHIFT_HOURS_def MIN_REST_HOURS_def)
  have s: "ex_sol (XStart 0 (grid 0 2 ! 0)) = 1" by (simp add: ex_grid ex_sol_def)
  have j: "(0 :: nat) < 2" by simp
  from rest_between_shift_starts [OF ex_init ex_table ex_len ex_add_variables ex_add_constraints
      ex_within_bounds ex_satisfies ex_M j] a
  have "\<not> (ex_sol (XStart 0 (grid 0 2 ! 0)) = 1 \<and> ex_sol (XStart 0 3600) = 1)" by blast
  with ex_init ex_table ex_len ex_add_variables ex_add_constraints ex_within_bounds ex_satisfies ex_M a s
  show ?thesis by simp
qed

section \<open>The shift rules on an hourly table\<close>











section \<open>Decoding the shifts\<close>

lemma py_max_eq: "xs \<noteq> [] \<Longrightarrow> py_max xs = Inr (Max (set xs))"
proof (cases xs)
  case Nil
  assume "xs \<noteq> []"
  with Nil show ?thesis by simp
next
  case (Cons x r)
  have "fold max r x = Max (set (x # r))" by (rule Max.set_eq_fold [symmetric])
  then show ?thesis using Cons by (simp add: py_max_def)
qed







section \<open>The window assertion on an hourly table\<close>

lemma emap_var_get_declared:
  "(\<And>p. p \<in> set ps \<Longrightarrow> f p \<in> fst ` set vars) \<Longrightarrow> emap (\<lambda>p. var_get vars (f p)) ps = Inr (map f ps)"
  by (rule emap_all_Inr) (simp add: var_get_declared)

lemma slot_loop_ex_Inr:
  "(\<And>s x. x \<in> set xs \<Longrightarrow> \<exists>cs s'. body s x = Inr (cs, s')) \<Longrightarrow> \<exists>cs. slot_loop body s xs = Inr cs"
proof (induction xs arbitrary: s)
  case Nil
  then show ?case by simp
next
  case (Cons x xs)
  from Cons.prems [of x s] obtain cs1 s1 where 1: "body s x = Inr (cs1, s1)" by auto
  from Cons.IH [of s1] Cons.prems obtain cs2 where "slot_loop body s1 xs = Inr cs2"
    by (metis list.set_intros(2))
  with 1 show ?case by simp
qed

text \<open>The variables of the slots of an hourly table are all declared.\<close>

lemma declared_on_grid:
  assumes init: "Model_init parse h0 r staff = Inr (h, self)"
    and tab: "to_datetime parse (date_time (h0 r)) = Inr (grid t0 n)"
    and len: "length (demand (h0 r)) = n"
    and vars: "add_variables h self = Inr vars"
    and i: "i < M self" and d: "d \<in> set (grid t0 n)"
  shows "XStart i d \<in> fst ` set vars" and "X i d \<in> fst ` set vars" and "XOt i d \<in> fst ` set vars"
    and "XDay i (midnight (date_of d)) \<in> fst ` set vars"
    and "Y1 d \<in> fst ` set vars" and "Y2 d \<in> fst ` set vars"
proof -
  note slot = grid_slot [OF init tab len d]
  show "XStart i d \<in> fst ` set vars" using declared_slot(1) [OF init vars i slot] by force
  show "X i d \<in> fst ` set vars" using declared_slot(2) [OF init vars i slot] by force
  show "XOt i d \<in> fst ` set vars" using declared_slot(3) [OF init vars i slot] by force
  show "XDay i (midnight (date_of d)) \<in> fst ` set vars" using declared_slot(4) [OF init vars i slot] by force
  have l: "M self - 1 < M self" "int (M self - 1) = int (M self) - 1" using i by auto
  show "Y1 d \<in> fst ` set vars" and "Y2 d \<in> fst ` set vars"
    using declared_slot(5) [OF init vars l(1) slot l(2)] by simp_all
qed

lemma slot_constraints_total:
  assumes init: "Model_init parse h0 r staff = Inr (h, self)"
    and tab: "to_datetime parse (date_time (h0 r)) = Inr (grid t0 n)"
    and len: "length (demand (h0 r)) = n"
    and vars: "add_variables h self = Inr vars"
    and i: "i < M self" and j: "j < n"
  shows "\<exists>cs seen'. slot_constraints h self vars i seen (j, grid t0 n ! j) = Inr (cs, seen')"
proof -
  let ?dt = "grid t0 n ! j"
  let ?bs = "midnight (date_of ?dt)"
  let ?eod = "?bs + Timedelta_hours 23"
  note keys = hourly_table(1) [OF init tab len]
  note bds = hourly_table(2) [OF init tab len]
  note decl = declared_on_grid [OF init tab len vars]
  have dt: "?dt \<in> set (grid t0 n)" using j by simp
  have b: "iloc (map date_of (grid t0 n)) j = Inr (date_of ?dt)" using j by (simp add: iloc_def)
  have dem: "\<exists>dem. dict_get (demand_dict self) ?dt = Inr dem"
  proof -
    have "?dt \<in> fst ` set (demand_dict self)" using keys dt by (metis list.set_map)
    then have "map_of (demand_dict self) ?dt \<noteq> None" by (simp add: map_of_eq_None_iff)
    then show ?thesis by (auto simp: dict_get_def)
  qed
  \<comment> \<open>the five windows with a length bound\<close>
  have w_past: "get_subset_dts self (max ?bs (?dt - Timedelta_hours (MAX_SHIFT_HOURS - 1))) ?dt (Some MAX_SHIFT_HOURS)
      = Inr (filter (\<lambda>d. max ?bs (?dt - Timedelta_hours (MAX_SHIFT_HOURS - 1)) \<le> d \<and> d \<le> ?dt) (grid t0 n))"
    by (rule get_subset_dts_grid [OF keys]) (simp_all add: Timedelta_hours_def MAX_SHIFT_HOURS_def)
  let ?rest = "filter (\<lambda>d. ?dt + Timedelta_hours 1 \<le> d
                  \<and> d \<le> ?dt + Timedelta_hours (MIN_SHIFT_HOURS + MIN_REST_HOURS - 1)) (grid t0 n)"
  have w_rest: "rest_window self ?dt = Inr ?rest"
    unfolding rest_window_def
    by (rule get_subset_dts_grid [OF keys])
       (simp_all add: Timedelta_hours_def MIN_SHIFT_HOURS_def MIN_REST_HOURS_def)
  let ?shift = "filter (\<lambda>d. ?dt \<le> d \<and> d \<le> ?dt + Timedelta_hours (MIN_SHIFT_HOURS - 1)) (grid t0 n)"
  have w_shift: "shift_window self ?dt = Inr ?shift"
    unfolding shift_window_def
    by (rule get_subset_dts_grid [OF keys]) (simp_all add: Timedelta_hours_def MIN_SHIFT_HOURS_def)
  have "?dt \<in> set ?shift" using dt by (simp add: Timedelta_hours_def MIN_SHIFT_HOURS_def)
  then have sne: "?shift \<noteq> []" by (simp only: length_pos_if_in_set length_greater_0_conv [symmetric])
  let ?m = "Max (set ?shift)"
  have m_ge: "?dt \<le> ?m" using \<open>?dt \<in> set ?shift\<close> by (intro Max_ge) simp_all
  let ?pot = "filter (\<lambda>d. ?m + Timedelta_hours 1 \<le> d
                 \<and> d \<le> min ?eod (?m + Timedelta_hours (MAX_SHIFT_HOURS - MIN_SHIFT_HOURS + 1))) (grid t0 n)"
  have w_pot: "overtime_window self ?eod ?shift = Inr ?pot"
    unfolding overtime_window_def py_max_eq [OF sne] ebind_Inr
    by (rule get_subset_dts_grid [OF keys])
       (simp_all add: Timedelta_hours_def MIN_SHIFT_HOURS_def MAX_SHIFT_HOURS_def)
  have w_extra: "\<exists>extra. additional_rest_window self ?rest = Inr extra \<and> set extra \<subseteq> set (grid t0 n)"
  proof (cases "?rest = []")
    case True
    then show ?thesis by (simp add: additional_rest_window_def)
  next
    case False
    have "get_subset_dts self (Max (set ?rest) + Timedelta_hours 1)
            (Max (set ?rest) + Timedelta_hours MIN_REST_HOURS) (Some MIN_REST_HOURS)
          = Inr (filter (\<lambda>d. Max (set ?rest) + Timedelta_hours 1 \<le> d
                  \<and> d \<le> Max (set ?rest) + Timedelta_hours MIN_REST_HOURS) (grid t0 n))"
      by (rule get_subset_dts_grid [OF keys]) (simp_all add: Timedelta_hours_def MIN_REST_HOURS_def)
    then show ?thesis using False
      unfolding additional_rest_window_def py_max_eq [OF False] ebind_Inr by auto
  qed
  then obtain extra where extra: "additional_rest_window self ?rest = Inr extra" "set extra \<subseteq> set (grid t0 n)"
    by blast
  \<comment> \<open>the constraints\<close>
  have es: "emap (\<lambda>p. var_get vars (XStart i p)) (filter P (grid t0 n))
            = Inr (map (XStart i) (filter P (grid t0 n)))" for P
    by (rule emap_var_get_declared) (use decl(1) [OF i] in simp)
  have ex: "emap (\<lambda>p. var_get vars (X i p)) (filter P (grid t0 n))
            = Inr (map (X i) (filter P (grid t0 n)))" for P
    by (rule emap_var_get_declared) (use decl(2) [OF i] in simp)
  have c_past: "\<exists>c. past_constraint self vars i j ?dt ?bs = Inr c"
    unfolding past_constraint_def w_past ebind_Inr
    using decl(2) [OF i dt] by (simp add: var_get_declared es)
  have c_rest: "\<exists>c. rest_constraint vars i j ?dt ?rest = Inr c"
    unfolding rest_constraint_def
    using decl(1) [OF i dt] by (simp add: var_get_declared es)
  have c_min: "\<exists>c. min_shift_constraint vars i j ?dt ?shift = Inr c"
    unfolding min_shift_constraint_def
    using decl(1) [OF i dt] by (simp add: var_get_declared ex)
  have c_ot: "\<exists>cs. emap (overtime_constraints vars i j ?dt extra) (enumerate 0 ?pot) = Inr cs"
  proof (rule emap_ex_Inr)
    fix kod assume mem: "kod \<in> set (enumerate 0 ?pot)"
    obtain k od where kod: "kod = (k, od)" by (cases kod)
    from mem have "k < length ?pot" "?pot ! k = od"
      unfolding kod in_set_enumerate_eq by simp_all
    then have od: "od \<in> set ?pot" using nth_mem by blast
    from od have g: "od \<in> set (grid t0 n)" and lt: "?dt < od"
      using m_ge by (simp_all add: Timedelta_hours_def)
    have prev: "od + Timedelta_hours (- 1) \<in> set (grid t0 n)"
      using grid_next(3) [OF dt g lt] by (simp add: Timedelta_hours_def)
    have ex: "extra ! k \<in> set (grid t0 n)" if "k < length extra"
      using extra(2) that by (meson nth_mem subsetD)
    show "\<exists>y. overtime_constraints vars i j ?dt extra kod = Inr y"
      unfolding kod overtime_constraints_def prod.case
      using decl(2) [OF i prev] decl(1) [OF i dt] decl(2) [OF i g] decl(3) [OF i g] decl(1) [OF i ex]
      by (simp add: var_get_declared)
  qed
  have c_day: "\<exists>c. max_per_day_constraint self vars i j ?bs ?eod = Inr c"
    unfolding max_per_day_constraint_def get_subset_dts_None keys ebind_Inr
    by (simp add: es)
  have c_link: "\<exists>c. day_link_constraint self vars i j ?bs ?eod = Inr c"
    unfolding day_link_constraint_def get_subset_dts_None keys ebind_Inr
    using decl(4) [OF i dt] by (simp add: var_get_declared ex)
  have c_dc: "\<exists>c. dc_constraint self vars j ?dt = Inr c"
  proof -
    have "emap (\<lambda>s. var_get vars (X s ?dt)) [0..<M self] = Inr (map (\<lambda>s. X s ?dt) [0..<M self])"
      by (rule emap_var_get_declared) (use decl(2) [OF _ dt] in simp)
    then show ?thesis using dem decl(5,6) [OF i dt]
      by (auto simp: dc_constraint_def var_get_declared)
  qed
  from c_past c_rest c_min c_ot c_day c_link c_dc
  obtain a1 a2 a3 a4 a5 a6 a7 where
    "past_constraint self vars i j ?dt ?bs = Inr a1"
    "rest_constraint vars i j ?dt ?rest = Inr a2"
    "min_shift_constraint vars i j ?dt ?shift = Inr a3"
    "emap (overtime_constraints vars i j ?dt extra) (enumerate 0 ?pot) = Inr a4"
    "max_per_day_constraint self vars i j ?bs ?eod = Inr a5"
    "day_link_constraint self vars i j ?bs ?eod = Inr a6"
    "dc_constraint self vars j ?dt = Inr a7"
    by blast
  then show ?thesis
    unfolding slot_constraints_def prod.case bds ebind_Inr b Let_def
    by (simp add: w_rest w_shift w_pot extra(1))
qed

lemma week_constraints_total:
  assumes init: "Model_init parse h0 r staff = Inr (h, self)"
    and tab: "to_datetime parse (date_time (h0 r)) = Inr (grid t0 n)"
    and len: "length (demand (h0 r)) = n"
    and vars: "add_variables h self = Inr vars"
    and i: "i < M self"
  shows "\<exists>ws. week_constraints h self vars i = Inr ws"
proof -
  note bds = hourly_table(2) [OF init tab len]
  note wks = hourly_table(3) [OF init tab len]
  have one: "\<exists>c. ebind (col_week h self) (\<lambda>wks'.
              ebind (col_bus_day h self) (\<lambda>bds.
              let week_days = unique (map snd (filter (\<lambda>(wk, b). wk = w) (zip wks' bds)))
              in if length week_days > MAX_DAYS_PER_WEEK
                 then ebind (emap (\<lambda>w_d. var_get vars (XDay i (midnight w_d))) week_days) (\<lambda>ds.
                        Inr [(max_per_week i w,
                              Le (lsum (map lvar ds)) (lconst (of_nat MAX_DAYS_PER_WEEK)))])
                 else Inr [])) = Inr c" for w
  proof -
    let ?days = "unique (map snd (filter (\<lambda>(wk, b). wk = w) (zip (week_col (grid t0 n)) (map date_of (grid t0 n)))))"
    have "emap (\<lambda>w_d. var_get vars (XDay i (midnight w_d))) ?days = Inr (map (\<lambda>w_d. XDay i (midnight w_d)) ?days)"
    proof (rule emap_var_get_declared)
      fix p assume "p \<in> set ?days"
      then have "p \<in> set (map date_of (grid t0 n))" by (auto dest: set_zip_rightD)
      then obtain d where "d \<in> set (grid t0 n)" "p = date_of d" by auto
      then show "XDay i (midnight p) \<in> fst ` set vars"
        using declared_on_grid(4) [OF init tab len vars i] by simp
    qed
    then show ?thesis unfolding wks bds ebind_Inr Let_def by simp
  qed
  have "\<exists>cs. emap (\<lambda>w. ebind (col_week h self) (\<lambda>wks'.
              ebind (col_bus_day h self) (\<lambda>bds.
              let week_days = unique (map snd (filter (\<lambda>(wk, b). wk = w) (zip wks' bds)))
              in if length week_days > MAX_DAYS_PER_WEEK
                 then ebind (emap (\<lambda>w_d. var_get vars (XDay i (midnight w_d))) week_days) (\<lambda>ds.
                        Inr [(max_per_week i w,
                              Le (lsum (map lvar ds)) (lconst (of_nat MAX_DAYS_PER_WEEK)))])
                 else Inr []))) (unique (week_col (grid t0 n))) = Inr cs"
    by (rule emap_ex_Inr) (rule one)
  then show ?thesis unfolding week_constraints_def wks ebind_Inr by auto
qed

lemma add_constraints_total:
  assumes init: "Model_init parse h0 r staff = Inr (h, self)"
    and tab: "to_datetime parse (date_time (h0 r)) = Inr (grid t0 n)"
    and len: "length (demand (h0 r)) = n"
    and vars: "add_variables h self = Inr vars"
  shows "\<exists>cs. add_constraints h self vars = Inr cs"
proof -
  note keys = hourly_table(1) [OF init tab len]
  have staff: "\<exists>c. ebind (slot_loop (slot_constraints h self vars i) None
                       (enumerate 0 (map fst (demand_dict self)))) (\<lambda>cs.
              ebind (week_constraints h self vars i) (\<lambda>ws.
              Inr (cs @ ws))) = Inr c" if "i \<in> set [0..<M self]" for i
  proof -
    from that have i: "i < M self" by simp
    have "\<exists>cs. slot_loop (slot_constraints h self vars i) None (enumerate 0 (grid t0 n)) = Inr cs"
    proof (rule slot_loop_ex_Inr)
      fix s x assume mem: "x \<in> set (enumerate 0 (grid t0 n))"
      obtain j d where x: "x = (j, d)" by (cases x)
      from mem have "j < n" "x = (j, grid t0 n ! j)"
        unfolding x in_set_enumerate_eq by simp_all
      then show "\<exists>cs s'. slot_constraints h self vars i s x = Inr (cs, s')"
        using slot_constraints_total [OF init tab len vars i, of j s] by simp
    qed
    then obtain cs where "slot_loop (slot_constraints h self vars i) None (enumerate 0 (grid t0 n)) = Inr cs"
      by blast
    moreover from week_constraints_total [OF init tab len vars i]
    obtain ws where "week_constraints h self vars i = Inr ws" by blast
    ultimately show ?thesis by (simp add: keys)
  qed
  have "\<exists>css. emap (\<lambda>i.
              ebind (slot_loop (slot_constraints h self vars i) None
                       (enumerate 0 (map fst (demand_dict self)))) (\<lambda>cs.
              ebind (week_constraints h self vars i) (\<lambda>ws.
              Inr (cs @ ws)))) [0..<M self] = Inr css"
    by (rule emap_ex_Inr) (rule staff)
  then show ?thesis unfolding add_constraints_def by auto
qed

lemma efold_one_error:
  "(\<And>x s. x \<in> set xs \<Longrightarrow> (\<exists>s'. f x s = Inr s') \<or> f x s = Inl e) \<Longrightarrow>
   (\<exists>s'. efold f xs s = Inr s') \<or> efold f xs s = Inl e"
proof (induction xs arbitrary: s)
  case Nil
  then show ?case by simp
next
  case (Cons x xs)
  from Cons.prems [of x s] consider s' where "f x s = Inr s'" | "f x s = Inl e" by auto
  then show ?case
  proof cases
    case 1
    from Cons.IH [of s'] Cons.prems have "(\<exists>t. efold f xs s' = Inr t) \<or> efold f xs s' = Inl e"
      by (meson list.set_intros(2))
    with 1 show ?thesis by simp
  next
    case 2
    then show ?thesis by simp
  qed
qed

text \<open>Decoding can only stop because no slot of a window is worked.\<close>

lemma decode_slot_no_assertion:
  assumes init: "Model_init parse h0 r staff = Inr (h, self)"
    and tab: "to_datetime parse (date_time (h0 r)) = Inr (grid t0 n)"
    and len: "length (demand (h0 r)) = n"
    and vars: "add_variables h self = Inr vars"
    and i: "i < M self" and t: "t \<in> set (grid t0 n)"
  shows "(\<exists>st'. decode_slot self vars sol i row t st = Inr st')
         \<or> decode_slot self vars sol i row t st = Inl ValueError"
proof -
  let ?W = "filter (\<lambda>d. t \<le> d \<and> d \<le> t + Timedelta_hours (MAX_SHIFT_HOURS - 1)) (grid t0 n)"
  note keys = hourly_table(1) [OF init tab len]
  note decl = declared_on_grid [OF init tab len vars i]
  obtain rows dcov cost where st: "st = (rows, dcov, cost)" by (cases st)
  have w: "get_subset_dts self t (t + Timedelta_hours (MAX_SHIFT_HOURS - 1)) (Some MAX_SHIFT_HOURS) = Inr ?W"
    by (rule get_subset_dts_grid [OF keys]) (simp_all add: Timedelta_hours_def MAX_SHIFT_HOURS_def)
  have vals: "emap (\<lambda>d. ebind (var_get vars (X i d)) (\<lambda>v. Inr (d, sol v))) ?W
              = Inr (map (\<lambda>d. (d, sol (X i d))) ?W)"
    by (rule emap_all_Inr) (use decl(2) in \<open>simp add: var_get_declared\<close>)
  have se: "(\<exists>e. shift_end self vars sol i t = Inr e) \<or> shift_end self vars sol i t = Inl ValueError"
    unfolding shift_end_def w vals ebind_Inr
    by (cases "map fst (filter (\<lambda>(d, q). q = 1) (map (\<lambda>d. (d, sol (X i d))) ?W))")
       (simp_all add: py_max_def)
  have "t \<in> fst ` set (demand_dict self)" using keys t by (metis list.set_map)
  then have "map_of (demand_dict self) t \<noteq> None" by (simp add: map_of_eq_None_iff)
  then obtain dem where dem: "dict_get (demand_dict self) t = Inr dem" by (auto simp: dict_get_def)
  from se show ?thesis
    unfolding st decode_slot_def prod.case
    using decl(1,2,3) [OF t] dem by (auto simp: var_get_declared Let_def)
qed

lemma decode_no_assertion:
  assumes init: "Model_init parse h0 r staff = Inr (h, self)"
    and tab: "to_datetime parse (date_time (h0 r)) = Inr (grid t0 n)"
    and len: "length (demand (h0 r)) = n"
    and vars: "add_variables h self = Inr vars"
  shows "(\<exists>st. decode self vars sol = Inr st) \<or> decode self vars sol = Inl ValueError"
  unfolding decode_def
proof (rule efold_one_error)
  fix i st assume "i \<in> set [0..<M self]"
  then have i: "i < M self" by simp
  from init have "staff_df self = staff" "M self = length staff" by (auto elim!: Model_init_cols)
  then have row: "iloc (staff_df self) i = Inr (staff ! i)" using i by (simp add: iloc_def)
  have "(\<exists>s'. efold (decode_slot self vars sol i (staff ! i)) (grid t0 n) st = Inr s')
        \<or> efold (decode_slot self vars sol i (staff ! i)) (grid t0 n) st = Inl ValueError"
    by (rule efold_one_error) (rule decode_slot_no_assertion [OF init tab len vars i])
  then show "(\<exists>s'. ebind (iloc (staff_df self) i) (\<lambda>row.
        efold (decode_slot self vars sol i row) (map fst (demand_dict self)) st) = Inr s')
      \<or> ebind (iloc (staff_df self) i) (\<lambda>row.
        efold (decode_slot self vars sol i row) (map fst (demand_dict self)) st) = Inl ValueError"
    unfolding row ebind_Inr hourly_table(1) [OF init tab len] .
qed

text \<open>
  C9. For a model of a contiguous hourly demand table, whatever its start, its length,
  the demand values and the staff, every call of get_subset_dts with a max_length
  passes its assertion: add_constraints returns the constraints and solve never fails
  with an assertion error, whatever the solver reports.
\<close>

theorem window_assertion_never_fails:
  assumes init: "Model_init parse h0 r staff = Inr (h, self)"
    and tab: "to_datetime parse (date_time (h0 r)) = Inr (grid t0 n)"
    and len: "length (demand (h0 r)) = n"
    and vars: "add_variables h self = Inr vars"
  shows "(\<exists>cs. add_constraints h self vars = Inr cs) \<and> solve self vars status sol \<noteq> Inl AssertionError"
proof -
  have x: "X i dt \<in> fst ` set vars" if "i < M self" "dt \<in> set (map fst (demand_dict self))" for i dt
    using declared_slot(2) [OF init vars that(1) key_is_slot [OF init that(2)]] by force
  have o: "XOt i dt \<in> fst ` set vars" if "i < M self" "dt \<in> set (map fst (demand_dict self))" for i dt
    using declared_slot(3) [OF init vars that(1) key_is_slot [OF init that(2)]] by force
  from solution_sum_eq [of self X vars sol] x obtain q1 where sx: "solution_sum self vars sol X = Inr q1"
    by blast
  from solution_sum_eq [of self XOt vars sol] o obtain q2 where so: "solution_sum self vars sol XOt = Inr q2"
    by blast
  from decode_no_assertion [OF init tab len vars, of sol]
  have "solve self vars status sol \<noteq> Inl AssertionError"
    using sx so by (auto simp: solve_def)
  with add_constraints_total [OF init tab len vars] show ?thesis by blast
qed

theorem window_assertion_never_fails_witness:
  "Model_init ex_parse ex_heap 0 ex_staff = Inr (ex_heap', ex_model)
   \<and> to_datetime ex_parse (date_time (ex_heap 0)) = Inr (grid 0 2)
   \<and> length (demand (ex_heap 0)) = 2
   \<and> add_variables ex_heap' ex_model = Inr ex_vars
   \<and> (\<exists>cs. add_constraints ex_heap' ex_model ex_vars = Inr cs)
   \<and> solve ex_model ex_vars OPTIMAL ex_sol \<noteq> Inl AssertionError"
  using window_assertion_never_fails [OF ex_init ex_table ex_len ex_add_variables, of OPTIMAL ex_sol]
    ex_init ex_table ex_len ex_add_variables by blast

end
